theory Spec2Isabelle
  imports Main "HOL-Library.Word"
begin

section \<open>Failures\<close>

text \<open>
  \<^verbatim>\<open>die(code, fmt, ...)\<close> aborts the current operation with an error code and a
  message; \<^verbatim>\<open>die_errno(what)\<close> does so with the current \<^verbatim>\<open>errno\<close> and the name of the
  failing call.  Both are values of the model: \<open>Inl\<close> of a sum.  \<open>Out_of_bounds\<close>
  stands for a read past the end of an allocation, which C leaves undefined, and
  \<open>Assertion_failed\<close> for an \<^verbatim>\<open>assert\<close> that does not hold.
\<close>

datatype failure = Die nat string | Die_errno nat string | Out_of_bounds | Assertion_failed

definition ENOENT :: nat where "ENOENT = 2"
definition EINVAL :: nat where "EINVAL = 22"
definition ENOSYS :: nat where "ENOSYS = 38"
definition ECOMM :: nat where "ECOMM = 70"

section \<open>Bytes in memory\<close>

type_synonym byte = "8 word"

text \<open>An unsigned integer stored least significant byte first (\<^verbatim>\<open>memcpy\<close> of a
  native integer on a little-endian target).\<close>

fun le_nat :: "byte list \<Rightarrow> nat" where
  "le_nat [] = 0"
| "le_nat (b # bs) = unat b + 256 * le_nat bs"

fun nat_le :: "nat \<Rightarrow> nat \<Rightarrow> byte list" where
  "nat_le 0 v = []"
| "nat_le (Suc n) v = of_nat (v mod 256) # nat_le n (v div 256)"

definition slice :: "byte list \<Rightarrow> nat \<Rightarrow> nat \<Rightarrow> byte list" where
  "slice mem off n = take n (drop off mem)"

definition load :: "nat \<Rightarrow> byte list \<Rightarrow> nat \<Rightarrow> nat" where
  "load n mem off = le_nat (slice mem off n)"

definition store :: "nat \<Rightarrow> byte list \<Rightarrow> nat \<Rightarrow> nat \<Rightarrow> byte list" where
  "store n mem off v = take off mem @ nat_le n v @ drop (off + n) mem"

section \<open>The resolver's wire format: decoding\<close>

definition sizeof_size_t :: nat where "sizeof_size_t = 8"

definition decode_blob :: "byte list \<Rightarrow> nat \<Rightarrow> nat \<Rightarrow> failure + (nat \<times> nat \<times> nat)" where
  "decode_blob mem data data_end =
     (if data_end - data < sizeof_size_t then Inl (Die ECOMM ''truncated data'')
      else let sz = load sizeof_size_t mem data;
               data1 = data + sizeof_size_t
           in if data_end - data1 < sz then Inl (Die ECOMM ''truncated data'')
              else Inr (data1, sz, data1 + sz))"

text \<open>
  \<^verbatim>\<open>struct addrinfo\<close> as the blob carries it: the raw bytes of the structure.  The
  layout is the one of an LP64 little-endian Linux target (four \<^verbatim>\<open>int\<close>s, a 32-bit
  \<^verbatim>\<open>socklen_t\<close>, padding, three pointers).
\<close>

definition sizeof_addrinfo :: nat where "sizeof_addrinfo = 48"
definition off_ai_flags :: nat where "off_ai_flags = 0"
definition off_ai_family :: nat where "off_ai_family = 4"
definition off_ai_socktype :: nat where "off_ai_socktype = 8"
definition off_ai_protocol :: nat where "off_ai_protocol = 12"
definition off_ai_addrlen :: nat where "off_ai_addrlen = 16"
definition off_ai_addr :: nat where "off_ai_addr = 24"
definition off_ai_canonname :: nat where "off_ai_canonname = 32"
definition off_ai_next :: nat where "off_ai_next = 40"

abbreviation load_int :: "byte list \<Rightarrow> nat \<Rightarrow> nat" where "load_int \<equiv> load 4"
abbreviation load_ptr :: "byte list \<Rightarrow> nat \<Rightarrow> nat" where "load_ptr \<equiv> load 8"
abbreviation store_ptr :: "byte list \<Rightarrow> nat \<Rightarrow> nat \<Rightarrow> byte list" where "store_ptr \<equiv> store 8"

text \<open>
  The state of the decoding loop of \<^verbatim>\<open>xgetaddrinfo_interruptible\<close>.  \<open>mem\<close> is the
  buffer \<^verbatim>\<open>out.buf\<close>, which the loop updates in place; \<open>data\<close> and every other
  position is an offset into it, and a pointer stored in it is \<open>base\<close> + offset,
  \<open>base\<close> being the address of \<^verbatim>\<open>out.buf\<close>.  \<open>ai_list\<close> is the local variable of
  that name (a pointer, 0 for \<^verbatim>\<open>NULL\<close>); \<open>nxt\<close> is the local \<^verbatim>\<open>next\<close>: \<open>None\<close>
  while it points to \<open>ai_list\<close>, \<open>Some off\<close> once it points to the \<^verbatim>\<open>ai_next\<close>
  field at \<open>off\<close> in the buffer.
\<close>

record gai_state =
  mem :: "byte list"
  data :: nat
  ai_list :: nat
  nxt :: "nat option"

text \<open>\<^verbatim>\<open>*next = ai; next = &ai->ai_next;\<close>\<close>

definition link_node :: "nat \<Rightarrow> gai_state \<Rightarrow> nat \<Rightarrow> gai_state" where
  "link_node base s ai =
     (case nxt s of
        None \<Rightarrow> s\<lparr>ai_list := base + ai, nxt := Some (ai + off_ai_next)\<rparr>
      | Some slot \<Rightarrow> s\<lparr>mem := store_ptr (mem s) slot (base + ai), nxt := Some (ai + off_ai_next)\<rparr>)"

text \<open>One pass through the body of \<^verbatim>\<open>while (data < data_end)\<close>.\<close>

definition gai_body :: "nat \<Rightarrow> nat \<Rightarrow> gai_state \<Rightarrow> failure + gai_state" where
  "gai_body base data_end s =
     (case decode_blob (mem s) (data s) data_end of
        Inl e \<Rightarrow> Inl e
      | Inr (ai, sz, data1) \<Rightarrow>
          if sz \<noteq> sizeof_addrinfo then Inl (Die ECOMM ''gai protocol error'')
          else
            (case decode_blob (mem s) data1 data_end of
               Inl e \<Rightarrow> Inl e
             | Inr (addr, sz2, data2) \<Rightarrow>
                 let mem1 = store_ptr (mem s) (ai + off_ai_addr) (base + addr) in
                 if sz2 \<noteq> load_int mem1 (ai + off_ai_addrlen)
                 then Inl (Die ECOMM ''gai protocol error'')
                 else if load_ptr mem1 (ai + off_ai_canonname) \<noteq> 0 then
                   (case decode_blob mem1 data2 data_end of
                      Inl e \<Rightarrow> Inl e
                    | Inr (cn, sz3, data3) \<Rightarrow>
                        Inr (link_node base
                               (s\<lparr>mem := store_ptr mem1 (ai + off_ai_canonname) (base + cn),
                                  data := data3\<rparr>) ai))
                 else Inr (link_node base (s\<lparr>mem := mem1, data := data2\<rparr>) ai)))"

text \<open>The loop.  Nothing in its text bounds the number of passes, so it is a partial
  function: \<open>None\<close> would be a loop that never ends.\<close>

partial_function (option) gai_loop :: "nat \<Rightarrow> nat \<Rightarrow> gai_state \<Rightarrow> (failure + gai_state) option" where
  "gai_loop base data_end s =
     (if data s < data_end then
        (case gai_body base data_end s of
           Inl e \<Rightarrow> Some (Inl e)
         | Inr s' \<Rightarrow> gai_loop base data_end s')
      else Some (Inr s))"

declare gai_loop.simps [code]

section \<open>The helper's exit status\<close>

text \<open>
  The wait status is the non-negative \<^verbatim>\<open>int\<close> that \<^verbatim>\<open>child_wait\<close> returns, read with
  the macros of \<^verbatim>\<open><sys/wait.h>\<close> (Linux encoding: the low seven bits are the
  terminating signal, 0 for a normal exit and \<^verbatim>\<open>0x7f\<close> for a stopped process; the
  next eight bits are the exit status).
\<close>

definition WTERMSIG :: "nat \<Rightarrow> nat" where
  "WTERMSIG status = status mod 128"

definition WEXITSTATUS :: "nat \<Rightarrow> nat" where
  "WEXITSTATUS status = (status div 256) mod 256"

definition WIFEXITED :: "nat \<Rightarrow> bool" where
  "WIFEXITED status = (WTERMSIG status = 0)"

definition WIFSIGNALED :: "nat \<Rightarrow> bool" where
  "WIFSIGNALED status = (0 < WTERMSIG status \<and> WTERMSIG status < 127)"

text \<open>
  Modelled from the spec: \<^verbatim>\<open>child_status_success_p\<close> (declared in \<^verbatim>\<open>child.h\<close>, which
  is not among the sources).  The helper "on success serializes the result list to
  standard output and exits with status 0": success is a normal exit with status 0.
\<close>

definition child_status_success_p :: "nat \<Rightarrow> bool" where
  "child_status_success_p status = (WIFEXITED status \<and> WEXITSTATUS status = 0)"

text \<open>\<^verbatim>\<open>printf\<close>'s \<^verbatim>\<open>%d\<close> and \<^verbatim>\<open>%hu\<close> of a non-negative number.\<close>

definition digit :: "nat \<Rightarrow> char" where
  "digit d = ''0123456789'' ! d"

fun dec :: "nat \<Rightarrow> string" where
  "dec n = (if n < 10 then [digit n] else dec (n div 10) @ [digit (n mod 10)])"

declare dec.simps [simp del]


section \<open>The interruptible resolver, parent side\<close>

text \<open>
  \<^verbatim>\<open>xgetaddrinfo_interruptible\<close> after \<^verbatim>\<open>child_start\<close>, \<^verbatim>\<open>slurp_fd_buf\<close> and
  \<^verbatim>\<open>child_wait\<close> have run.  What these collaborators delivered is the input: \<open>out\<close>,
  the bytes read from the helper's standard output, held at address \<open>base\<close>;
  \<open>status\<close>, the wait status; \<open>err\<close>, the text
  \<^verbatim>\<open>massage_output_buf(fdrecorder_get_clean(...))\<close> of the helper's standard error.
  The result is the final state: the pointer \<open>ai_list\<close> and the buffer it points
  into.
\<close>

definition xgetaddrinfo_interruptible ::
    "nat \<Rightarrow> byte list \<Rightarrow> nat \<Rightarrow> string \<Rightarrow> (failure + gai_state) option" where
  "xgetaddrinfo_interruptible base out status err =
     (if \<not> child_status_success_p status then
        (if WIFEXITED status then Some (Inl (Die ENOENT err))
         else if WIFSIGNALED status then
           Some (Inl (Die ENOENT (''getaddrinfo failed with signal '' @ dec (WTERMSIG status))))
         else Some (Inl (Die ENOENT ''unknown status from resolver process'')))
      else gai_loop base (length out) \<lparr>mem = out, data = 0, ai_list = 0, nxt = None\<rparr>)"

section \<open>The interruptible resolver, helper side\<close>

text \<open>
  A node of the list that \<^verbatim>\<open>getaddrinfo\<close> returned in the helper: \<open>raw\<close> is the
  \<^verbatim>\<open>struct addrinfo\<close> itself, \<open>addr_mem\<close> the memory its \<^verbatim>\<open>ai_addr\<close> points to and
  \<open>canon_mem\<close> the memory its \<^verbatim>\<open>ai_canonname\<close> points to when that is not
  \<^verbatim>\<open>NULL\<close>.  The list is in the order of the \<^verbatim>\<open>ai_next\<close> chain.
\<close>

record ai_node =
  raw :: "byte list"
  addr_mem :: "byte list"
  canon_mem :: "byte list"

definition strlen :: "byte list \<Rightarrow> nat" where
  "strlen s = length (takeWhile (\<lambda>b. b \<noteq> 0) s)"

text \<open>The bytes that \<^verbatim>\<open>write_blob(fd, data, sz)\<close> puts on the descriptor.\<close>

definition write_blob :: "byte list \<Rightarrow> nat \<Rightarrow> byte list" where
  "write_blob d sz = nat_le sizeof_size_t sz @ take sz d"

text \<open>One pass through the body of the \<^verbatim>\<open>for\<close> loop of \<^verbatim>\<open>xgai_preexec_1\<close>.\<close>

definition write_node :: "ai_node \<Rightarrow> byte list" where
  "write_node ai =
     write_blob (raw ai) sizeof_addrinfo
     @ write_blob (addr_mem ai) (load_int (raw ai) off_ai_addrlen)
     @ (if load_ptr (raw ai) off_ai_canonname \<noteq> 0
        then write_blob (canon_mem ai) (strlen (canon_mem ai) + 1) else [])"

fun xgai_preexec_1 :: "ai_node list \<Rightarrow> byte list" where
  "xgai_preexec_1 [] = []"
| "xgai_preexec_1 (ai # rest) = write_node ai @ xgai_preexec_1 rest"

text \<open>
  What \<^verbatim>\<open>getaddrinfo\<close> guarantees of a node: the structure has its size, \<^verbatim>\<open>ai_addr\<close>
  points to at least \<^verbatim>\<open>ai_addrlen\<close> bytes, and a non-null \<^verbatim>\<open>ai_canonname\<close> points to
  a NUL-terminated string (that fits an address space of 64 bits).
\<close>

definition node_ok :: "ai_node \<Rightarrow> bool" where
  "node_ok ai \<longleftrightarrow>
     length (raw ai) = sizeof_addrinfo \<and>
     load_int (raw ai) off_ai_addrlen \<le> length (addr_mem ai) \<and>
     (load_ptr (raw ai) off_ai_canonname \<noteq> 0 \<longrightarrow>
        0 \<in> set (canon_mem ai) \<and> length (canon_mem ai) < 2 ^ 64)"

subsection \<open>Notions used to state what the decoder does\<close>

definition has_canon :: "ai_node \<Rightarrow> bool" where
  "has_canon ai \<longleftrightarrow> load_ptr (raw ai) off_ai_canonname \<noteq> 0"

definition node_len :: "ai_node \<Rightarrow> nat" where
  "node_len ai = 2 * sizeof_size_t + sizeof_addrinfo + load_int (raw ai) off_ai_addrlen
                 + (if has_canon ai then sizeof_size_t + strlen (canon_mem ai) + 1 else 0)"

definition decoded_mem :: "nat \<Rightarrow> gai_state \<Rightarrow> ai_node \<Rightarrow> byte list" where
  "decoded_mem base s n =
     (let d = data s;
          m1 = store_ptr (mem s) (d + 32) (base + (d + 64))
      in if has_canon n
         then store_ptr m1 (d + 40) (base + (d + 72 + load_int (raw n) off_ai_addrlen))
         else m1)"

subsection \<open>The list as its consumer reads it\<close>

text \<open>
  What a consumer of a node gets from it: the integer fields, the \<^verbatim>\<open>ai_addrlen\<close> bytes
  at \<^verbatim>\<open>ai_addr\<close>, and the string at \<^verbatim>\<open>ai_canonname\<close> when that pointer is not
  \<^verbatim>\<open>NULL\<close>.  \<open>view_child\<close> reads a node in the helper, \<open>view_parent\<close> reads the
  node at pointer \<open>p\<close> in the parent's buffer.
\<close>

record ai_view =
  v_flags :: nat
  v_family :: nat
  v_socktype :: nat
  v_protocol :: nat
  v_addr :: "byte list"
  v_canonname :: "byte list option"

definition view_child :: "ai_node \<Rightarrow> ai_view" where
  "view_child n =
     \<lparr>v_flags = load_int (raw n) off_ai_flags,
      v_family = load_int (raw n) off_ai_family,
      v_socktype = load_int (raw n) off_ai_socktype,
      v_protocol = load_int (raw n) off_ai_protocol,
      v_addr = take (load_int (raw n) off_ai_addrlen) (addr_mem n),
      v_canonname = (if load_ptr (raw n) off_ai_canonname \<noteq> 0
                     then Some (takeWhile (\<lambda>b. b \<noteq> 0) (canon_mem n)) else None)\<rparr>"

definition view_parent :: "nat \<Rightarrow> byte list \<Rightarrow> nat \<Rightarrow> ai_view" where
  "view_parent base m p =
     (let ai = p - base in
      \<lparr>v_flags = load_int m (ai + off_ai_flags),
       v_family = load_int m (ai + off_ai_family),
       v_socktype = load_int m (ai + off_ai_socktype),
       v_protocol = load_int m (ai + off_ai_protocol),
       v_addr = slice m (load_ptr m (ai + off_ai_addr) - base) (load_int m (ai + off_ai_addrlen)),
       v_canonname =
         (let c = load_ptr m (ai + off_ai_canonname)
          in if c \<noteq> 0 then Some (takeWhile (\<lambda>b. b \<noteq> 0) (drop (c - base) m)) else None)\<rparr>)"

text \<open>
  Following \<^verbatim>\<open>ai_next\<close> from the pointer \<open>p\<close> to \<^verbatim>\<open>NULL\<close>: the pointers of the
  nodes met, in order.  \<open>None\<close> when a pointer leaves the buffer or when more than
  \<open>fuel\<close> nodes are linked (the chain need not end).
\<close>

fun ai_walk :: "nat \<Rightarrow> nat \<Rightarrow> byte list \<Rightarrow> nat \<Rightarrow> nat list option" where
  "ai_walk 0 base m p = (if p = 0 then Some [] else None)"
| "ai_walk (Suc fuel) base m p =
     (if p = 0 then Some []
      else if p < base \<or> length m < p - base + sizeof_addrinfo then None
      else map_option ((#) p) (ai_walk fuel base m (load_ptr m (p - base + off_ai_next))))"

text \<open>The list that a result of \<^verbatim>\<open>xgetaddrinfo_interruptible\<close> hands to the caller;
  \<open>None\<close> when the call failed or did not return a proper list.\<close>

definition gai_result_list :: "nat \<Rightarrow> (failure + gai_state) option \<Rightarrow> ai_view list option" where
  "gai_result_list base r =
     (case r of
        Some (Inr s) \<Rightarrow>
          map_option (map (view_parent base (mem s)))
            (ai_walk (length (mem s)) base (mem s) (ai_list s))
      | _ \<Rightarrow> None)"

text \<open>The decoded node \<open>n\<close> sits in the buffer where its blobs start at \<open>d\<close>: the
  integer fields are those of \<open>n\<close>, \<^verbatim>\<open>ai_addr\<close> and \<^verbatim>\<open>ai_canonname\<close> point to the
  payloads of the second and third blob.\<close>

definition node_image :: "nat \<Rightarrow> byte list \<Rightarrow> nat \<Rightarrow> ai_node \<Rightarrow> bool" where
  "node_image base m d n \<longleftrightarrow>
     (let al = load_int (raw n) off_ai_addrlen; cl = strlen (canon_mem n) + 1 in
      slice m (d + 8) 24 = take 24 (raw n) \<and>
      slice m (d + 32) 8 = nat_le 8 (base + (d + 64)) \<and>
      slice m (d + 64) al = take al (addr_mem n) \<and>
      (if has_canon n
       then slice m (d + 40) 8 = nat_le 8 (base + (d + 72 + al)) \<and>
            slice m (d + 72 + al) cl = take cl (canon_mem n)
       else slice m (d + 40) 8 = slice (raw n) 32 8))"

text \<open>The nodes \<open>ns\<close>, decoded from the blobs that start at \<open>d\<close>, are linked in this
  order and the last \<^verbatim>\<open>ai_next\<close> is \<^verbatim>\<open>NULL\<close>.\<close>

fun nodes_at :: "nat \<Rightarrow> byte list \<Rightarrow> nat \<Rightarrow> ai_node list \<Rightarrow> bool" where
  "nodes_at base m d [] = True"
| "nodes_at base m d (n # ns) =
     (node_image base m d n \<and>
      load_ptr m (d + 48) = (if ns = [] then 0 else base + (d + node_len n + 8)) \<and>
      nodes_at base m (d + node_len n) ns)"

text \<open>The pointers to the nodes decoded from the blobs that start at \<open>d\<close>.\<close>

fun node_ptrs :: "nat \<Rightarrow> nat \<Rightarrow> ai_node list \<Rightarrow> nat list" where
  "node_ptrs base d [] = []"
| "node_ptrs base d (n # ns) = (base + (d + 8)) # node_ptrs base (d + node_len n) ns"

text \<open>The lengths of the prefixes of the helper's output that end with a whole node:
  0, the first node, the first two, and so on to the whole output.\<close>

definition node_boundaries :: "ai_node list \<Rightarrow> nat list" where
  "node_boundaries ns = map (\<lambda>j. length (xgai_preexec_1 (take j ns))) [0..<Suc (length ns)]"

subsection \<open>Two sample nodes\<close>

text \<open>A \<^verbatim>\<open>struct addrinfo\<close> from its fields, in the layout above.\<close>

definition mk_addrinfo :: "nat \<Rightarrow> nat \<Rightarrow> nat \<Rightarrow> nat \<Rightarrow> nat \<Rightarrow> nat \<Rightarrow> nat \<Rightarrow> nat \<Rightarrow> byte list" where
  "mk_addrinfo flags family socktype protocol addrlen addr canonname next =
     nat_le 4 flags @ nat_le 4 family @ nat_le 4 socktype @ nat_le 4 protocol
     @ nat_le 4 addrlen @ nat_le 4 0 @ nat_le 8 addr @ nat_le 8 canonname @ nat_le 8 next"

text \<open>
  A TCP/IPv4 result for 10.0.0.1:80 with the canonical name \<^verbatim>\<open>a.b\<close>, followed by one for
  10.0.0.2:80 without a canonical name, which ends the list.  The pointers are
  addresses in the helper.
\<close>

definition sample_first :: ai_node where
  "sample_first =
     \<lparr>raw = mk_addrinfo 2 2 1 6 16 24576 24608 24640,
      addr_mem = [2, 0, 0, 80, 10, 0, 0, 1, 0, 0, 0, 0, 0, 0, 0, 0],
      canon_mem = [97, 46, 98, 0]\<rparr>"

definition sample_second :: ai_node where
  "sample_second =
     \<lparr>raw = mk_addrinfo 0 2 1 6 16 24704 0 0,
      addr_mem = [2, 0, 0, 80, 10, 0, 0, 2, 0, 0, 0, 0, 0, 0, 0, 0],
      canon_mem = []\<rparr>"

section \<open>Address records\<close>

text \<open>
  What the build fixes: the preprocessor symbols the code tests, \<^verbatim>\<open>SIZE_MAX\<close>, and the
  offset of the socket address in \<^verbatim>\<open>struct addr\<close> (declared in \<^verbatim>\<open>net.h\<close>, which is not
  among the sources: the offset is a parameter).
\<close>

record platform =
  linux :: bool
  have_SOCK_CLOEXEC :: bool
  have_ACCEPT4 :: bool
  SIZE_MAX :: nat
  offsetof_addr :: nat

definition linux_lp64 :: platform where
  "linux_lp64 = \<lparr>linux = True, have_SOCK_CLOEXEC = True, have_ACCEPT4 = True,
                  SIZE_MAX = 2 ^ 64 - 1, offsetof_addr = 4\<rparr>"

definition other_ilp32 :: platform where
  "other_ilp32 = \<lparr>linux = False, have_SOCK_CLOEXEC = False, have_ACCEPT4 = False,
                   SIZE_MAX = 2 ^ 32 - 1, offsetof_addr = 4\<rparr>"

definition linux_ilp32 :: platform where
  "linux_ilp32 = \<lparr>linux = True, have_SOCK_CLOEXEC = True, have_ACCEPT4 = True,
                   SIZE_MAX = 2 ^ 32 - 1, offsetof_addr = 4\<rparr>"

definition INT_MAX :: nat where "INT_MAX = 2 ^ 31 - 1"
definition AF_UNIX :: nat where "AF_UNIX = 1"
definition AF_INET :: nat where "AF_INET = 2"
definition AF_INET6 :: nat where "AF_INET6 = 10"

text \<open>\<^verbatim>\<open>offsetof(struct sockaddr_un, sun_path)\<close>: the family field comes first.\<close>

definition offsetof_sun_path :: nat where "offsetof_sun_path = 2"

text \<open>
  \<^verbatim>\<open>struct addr\<close>: the member \<^verbatim>\<open>size\<close> and the socket address, which is a
  \<^verbatim>\<open>struct sockaddr\<close> (a family and the \<^verbatim>\<open>char\<close>s after it, as far as the allocation
  goes).  For \<^verbatim>\<open>AF_UNIX\<close> the bytes are \<^verbatim>\<open>sun_path\<close>; for \<^verbatim>\<open>AF_INET\<close> they are the port
  (2 bytes, network order) and the address (4 bytes); for \<^verbatim>\<open>AF_INET6\<close> the port, the
  flow label (4 bytes) and the address (16 bytes).
\<close>

record addr =
  size :: nat
  sa_family :: nat
  sa_data :: string

text \<open>
  The member \<^verbatim>\<open>size\<close> is a \<^verbatim>\<open>socklen_t\<close> (it is the length that \<^verbatim>\<open>xconnect\<close> and
  \<^verbatim>\<open>xbind\<close> hand to \<^verbatim>\<open>connect\<close> and \<^verbatim>\<open>bind\<close>), an unsigned integer of 32 bits, also
  where \<^verbatim>\<open>size_t\<close> has 64.  Assigning a \<^verbatim>\<open>size_t\<close> to it keeps the low 32 bits.
\<close>

definition SOCKLEN_MAX :: nat where "SOCKLEN_MAX = 2 ^ 32 - 1"

definition socklen_t :: "nat \<Rightarrow> nat" where
  "socklen_t n = n mod (SOCKLEN_MAX + 1)"

definition NUL :: char where "NUL = CHR 0x00"

text \<open>\<^verbatim>\<open>strlen\<close> of the \<^verbatim>\<open>char\<close> array \<open>s\<close>.\<close>

definition strlen_s :: "string \<Rightarrow> nat" where
  "strlen_s s = length (takeWhile (\<lambda>c. c \<noteq> NUL) s)"

text \<open>\<^verbatim>\<open>ntohs\<close> of the two bytes at the start of \<^verbatim>\<open>sa_data\<close>.\<close>

definition ntohs_port :: "string \<Rightarrow> nat" where
  "ntohs_port bs = (case bs of hi # lo # _ \<Rightarrow> of_char hi * 256 + of_char lo | _ \<Rightarrow> 0)"

text \<open>
  \<^verbatim>\<open>printf\<close>'s \<^verbatim>\<open>%.*s\<close>: the characters of the string at \<open>p\<close> up to its NUL, at most
  \<open>prec\<close> of them.  \<open>p\<close> is the memory from the pointer to the end of the allocation;
  without a NUL, reading \<open>prec\<close> characters may run past it.
\<close>

definition printf_prec_s :: "nat \<Rightarrow> string \<Rightarrow> failure + string" where
  "printf_prec_s prec p =
     (let avail = take prec p in
      if NUL \<notin> set avail \<and> length avail < prec then Inl Out_of_bounds
      else Inr (takeWhile (\<lambda>c. c \<noteq> NUL) avail))"

text \<open>
  \<^verbatim>\<open>describe_addr\<close>.  \<^verbatim>\<open>inet_ntop\<close> belongs to the C library: it is the parameter
  \<open>ntop\<close>, which gives the text or the \<^verbatim>\<open>errno\<close> of its failure.
\<close>

definition describe_addr ::
    "platform \<Rightarrow> (nat \<Rightarrow> string \<Rightarrow> nat + string) \<Rightarrow> addr \<Rightarrow> failure + string" where
  "describe_addr P ntop a =
     (let family = sa_family a in
      if family = AF_INET then
        (case ntop family (take 4 (drop 2 (sa_data a))) of
           Inl e \<Rightarrow> Inl (Die_errno e ''inet_ntop'')
         | Inr buf \<Rightarrow> Inr (''['' @ buf @ '':'' @ dec (ntohs_port (sa_data a)) @ '']''))
      else if family = AF_INET6 then
        (case ntop family (take 16 (drop 6 (sa_data a))) of
           Inl e \<Rightarrow> Inl (Die_errno e ''inet_ntop'')
         | Inr buf \<Rightarrow> Inr (''['' @ buf @ '':'' @ dec (ntohs_port (sa_data a)) @ '']''))
      else if family = AF_UNIX then
        (let path = sa_data a;
             path_offset = offsetof_addr P + offsetof_sun_path
         in if path_offset > size a then Inl (Die EINVAL ''illegal AF_UNIX addr'')
            else
              (let pathlen = size a - path_offset;
                   pathlen = (if pathlen > INT_MAX then INT_MAX else pathlen)
               in case path of
                    [] \<Rightarrow> Inl Out_of_bounds
                  | c # rest \<Rightarrow>
                      (let (kind, path) =
                             (if c = NUL then (''abstract'', rest) else (''filesystem'', path))
                       in case printf_prec_s pathlen path of
                            Inl e \<Rightarrow> Inl e
                          | Inr text \<Rightarrow> Inr (''[unix'' @ kind @ '':['' @ text @ '']]''))))
      else Inr (''[unknown address family '' @ dec family @ '']''))"

text \<open>
  Modelled from the spec: \<^verbatim>\<open>SATADD(r, a, b)\<close>, a macro of \<^verbatim>\<open>util.h\<close>, which is not among
  the sources.  It adds two sizes, and reports an overflow of the sum instead of
  wrapping ("arithmetic overflow on the length computation is itself a fatal
  condition").  The result is the flag and the value left in \<^verbatim>\<open>*r\<close>.
\<close>

definition SATADD :: "nat \<Rightarrow> nat \<Rightarrow> nat \<Rightarrow> bool \<times> nat" where
  "SATADD smax a b = (if smax - a < b then (True, smax) else (False, a + b))"

text \<open>
  The constructors.  Each returns the sizes it passed to \<^verbatim>\<open>xalloc\<close>, in order, and
  the record or the failure.  \<open>filename\<close> is the characters of the C string before
  its NUL; size arithmetic wraps at \<^verbatim>\<open>SIZE_MAX\<close>.  The length of the socket address
  (\<^verbatim>\<open>SUN_LEN\<close>, or \<^verbatim>\<open>addrlen - offsetof(struct addr, addr_un)\<close>) is a \<^verbatim>\<open>size_t\<close>; the
  assignment to \<^verbatim>\<open>a->size\<close> converts it to \<^verbatim>\<open>socklen_t\<close>.
\<close>

definition make_addr_unix_filesystem :: "platform \<Rightarrow> string \<Rightarrow> nat list \<times> (failure + addr)" where
  "make_addr_unix_filesystem P filename =
     (let filename_length = length filename;
          addrlen = offsetof_addr P + offsetof_sun_path;
          (overflow, addrlen) =
             SATADD (SIZE_MAX P) addrlen ((filename_length + 1) mod (SIZE_MAX P + 1))
      in if overflow then ([], Inl (Die EINVAL ''socket name too long''))
         else
           (let sun_path = filename @ [NUL]
            in ([addrlen],
                Inr \<lparr>size = socklen_t (offsetof_sun_path + strlen_s sun_path),
                     sa_family = AF_UNIX, sa_data = sun_path\<rparr>)))"

definition make_addr_unix_abstract :: "platform \<Rightarrow> string \<Rightarrow> nat \<Rightarrow> nat list \<times> (failure + addr)" where
  "make_addr_unix_abstract P bytes nr =
     (if linux P then
        (let addrlen = offsetof_addr P + offsetof_sun_path + 1;
             (overflow, addrlen) = SATADD (SIZE_MAX P) addrlen nr
         in if overflow then ([], Inl (Die EINVAL ''socket name too long''))
            else ([addrlen],
                  Inr \<lparr>size = socklen_t (addrlen - offsetof_addr P),
                       sa_family = AF_UNIX, sa_data = NUL # take nr bytes\<rparr>))
      else ([], Inl (Die ENOSYS ''this system does not support abstract AF_UNIX'')))"

definition make_addr_unix_abstract_s :: "platform \<Rightarrow> string \<Rightarrow> nat list \<times> (failure + addr)" where
  "make_addr_unix_abstract_s P name = make_addr_unix_abstract P name (length name)"

text \<open>\<^verbatim>\<open>addrinfo2addr\<close>, from the two fields it reads: \<^verbatim>\<open>ai_addrlen\<close> (itself a
  \<^verbatim>\<open>socklen_t\<close>) and the memory at \<^verbatim>\<open>ai_addr\<close> (a family of two bytes, then the rest).\<close>

definition addrinfo2addr :: "platform \<Rightarrow> nat \<Rightarrow> string \<Rightarrow> nat list \<times> (failure + addr)" where
  "addrinfo2addr P ai_addrlen ai_addr =
     (let allocsz = offsetof_addr P;
          (overflow, allocsz) = SATADD (SIZE_MAX P) allocsz ai_addrlen
      in if overflow then ([], Inl (Die EINVAL ''address too long''))
         else ([allocsz],
               Inr \<lparr>size = socklen_t ai_addrlen,
                    sa_family = le_nat (map of_char (take 2 (take ai_addrlen ai_addr))),
                    sa_data = drop 2 (take ai_addrlen ai_addr)\<rparr>))"

section \<open>The socket layer\<close>

subsection \<open>The process and the cleanup slots\<close>

text \<open>
  Of the process, the model keeps the open descriptors, each with its close-on-exec
  flag, and the cleanup slots of the current scope.

  Modelled from the spec: \<^verbatim>\<open>cleanup_allocate\<close>, \<^verbatim>\<open>cleanup_commit_close_fd\<close>, \<^verbatim>\<open>die\<close> and
  \<^verbatim>\<open>die_errno\<close> (\<^verbatim>\<open>util.h\<close>, which is not among the sources).  A slot is reserved
  empty before the risky call; committing it arms it with the descriptor to close; a
  failure runs the armed slots of the scope before it propagates, so that a descriptor
  committed to a slot does not outlive the failure.
\<close>

record proc =
  fds :: "(int \<times> bool) list"
  cleanups :: "int option list"

type_synonym 'a io = "proc \<Rightarrow> (failure + 'a) \<times> proc"

definition ret :: "'a \<Rightarrow> 'a io" where
  "ret x p = (Inr x, p)"

definition bnd :: "'a io \<Rightarrow> ('a \<Rightarrow> 'b io) \<Rightarrow> 'b io" where
  "bnd m f p = (case m p of (Inl e, p') \<Rightarrow> (Inl e, p') | (Inr x, p') \<Rightarrow> f x p')"

definition unwind :: "proc \<Rightarrow> proc" where
  "unwind p = p\<lparr>fds := filter (\<lambda>(fd, c). Some fd \<notin> set (cleanups p)) (fds p), cleanups := []\<rparr>"

definition die :: "failure \<Rightarrow> 'a io" where
  "die f p = (Inl f, unwind p)"

definition die_errno :: "nat \<Rightarrow> string \<Rightarrow> 'a io" where
  "die_errno e what = die (Die_errno e what)"

definition cleanup_allocate :: "nat io" where
  "cleanup_allocate p = (Inr (length (cleanups p)), p\<lparr>cleanups := cleanups p @ [None]\<rparr>)"

definition cleanup_commit_close_fd :: "nat \<Rightarrow> int \<Rightarrow> unit io" where
  "cleanup_commit_close_fd cl fd p = (Inr (), p\<lparr>cleanups := (cleanups p)[cl := Some fd]\<rparr>)"

text \<open>What the kernel does when a call that creates a descriptor succeeds.\<close>

definition kernel_open :: "int \<Rightarrow> bool \<Rightarrow> unit io" where
  "kernel_open fd cloexec p = (Inr (), p\<lparr>fds := (fd, cloexec) # fds p\<rparr>)"

text \<open>
  Modelled from the spec: \<^verbatim>\<open>merge_O_CLOEXEC_into_fd_flags\<close> and \<^verbatim>\<open>assert_cloexec\<close>
  (\<^verbatim>\<open>fs.h\<close> and \<^verbatim>\<open>util.h\<close>, not among the sources): close-on-exec is applied right after
  the creation, which is fatal when the \<^verbatim>\<open>fcntl\<close> fails (\<open>m\<close> is the \<^verbatim>\<open>errno\<close> of that
  failure, if any), and it is asserted to have taken effect.
\<close>

definition merge_O_CLOEXEC_into_fd_flags :: "int \<Rightarrow> nat option \<Rightarrow> unit io" where
  "merge_O_CLOEXEC_into_fd_flags fd m p =
     (case m of
        Some e \<Rightarrow> die_errno e ''fcntl'' p
      | None \<Rightarrow> (Inr (), p\<lparr>fds := map (\<lambda>(f, c). if f = fd then (f, True) else (f, c)) (fds p)\<rparr>))"

definition assert_cloexec :: "int \<Rightarrow> unit io" where
  "assert_cloexec fd p = (if (fd, True) \<in> set (fds p) then (Inr (), p) else (Inl Assertion_failed, p))"

text \<open>Lines 16 to 18: on Linux \<^verbatim>\<open>SOCK_CLOEXEC\<close> is defined in any case.\<close>

definition SOCK_CLOEXEC_defined :: "platform \<Rightarrow> bool" where
  "SOCK_CLOEXEC_defined P \<longleftrightarrow> have_SOCK_CLOEXEC P \<or> linux P"

subsection \<open>The wrappers\<close>

text \<open>
  The outcome of a system call is what the kernel answers: the return value and
  \<^verbatim>\<open>errno\<close>.  It is an argument of the wrapper.  A wrapper that calls in a loop takes
  the list of the answers to come, and the loop
  \<^verbatim>\<open>do { rc = call(); } while (rc == -1 && errno == EINTR)\<close> ends with the first answer
  that is not an interruption; \<open>None\<close> when every answer of the list is one (the loop is
  still running).
\<close>

type_synonym sysret = "int \<times> nat"





definition xsetsockopt :: "sysret \<Rightarrow> unit io" where
  "xsetsockopt r = (if fst r = - 1 then die_errno (snd r) ''setsockopt'' else ret ())"


definition disable_tcp_nagle :: "sysret \<Rightarrow> unit io" where
  "disable_tcp_nagle r = xsetsockopt r"






text \<open>\<open>r\<close> is the answer of \<^verbatim>\<open>socketpair\<close> and \<open>fd\<close> the two descriptors it writes
  when it succeeds; \<open>m0\<close> and \<open>m1\<close> are the answers to the two calls of
  \<^verbatim>\<open>merge_O_CLOEXEC_into_fd_flags\<close>.\<close>

definition xsocketpair ::
    "platform \<Rightarrow> sysret \<Rightarrow> int \<times> int \<Rightarrow> nat option \<Rightarrow> nat option \<Rightarrow> (int \<times> int) io" where
  "xsocketpair P r fd m0 m1 =
     bnd cleanup_allocate (\<lambda>cl0.
     bnd cleanup_allocate (\<lambda>cl1.
       if fst r < 0 then die_errno (snd r) ''socketpair''
       else
         bnd (kernel_open (fst fd) (SOCK_CLOEXEC_defined P)) (\<lambda>_.
         bnd (kernel_open (snd fd) (SOCK_CLOEXEC_defined P)) (\<lambda>_.
         bnd (cleanup_commit_close_fd cl0 (fst fd)) (\<lambda>_.
         bnd (cleanup_commit_close_fd cl1 (snd fd)) (\<lambda>_.
         bnd (if SOCK_CLOEXEC_defined P then ret ()
              else bnd (merge_O_CLOEXEC_into_fd_flags (fst fd) m0) (\<lambda>_.
                   merge_O_CLOEXEC_into_fd_flags (snd fd) m1)) (\<lambda>_.
         bnd (assert_cloexec (fst fd)) (\<lambda>_.
         bnd (assert_cloexec (snd fd)) (\<lambda>_.
         ret fd)))))))))"

definition xsocketpairnc ::
    "platform \<Rightarrow> sysret \<Rightarrow> int \<times> int \<Rightarrow> nat option \<Rightarrow> nat option \<Rightarrow> (int \<times> int) io" where
  "xsocketpairnc P r sv m0 m1 =
     (if fst r < 0 then die_errno (snd r) ''socketpair''
      else
        bnd (kernel_open (fst sv) (SOCK_CLOEXEC_defined P)) (\<lambda>_.
        bnd (kernel_open (snd sv) (SOCK_CLOEXEC_defined P)) (\<lambda>_.
        bnd (if SOCK_CLOEXEC_defined P then ret ()
             else bnd (merge_O_CLOEXEC_into_fd_flags (fst sv) m0) (\<lambda>_.
                  merge_O_CLOEXEC_into_fd_flags (snd sv) m1)) (\<lambda>_.
        bnd (assert_cloexec (fst sv)) (\<lambda>_.
        bnd (assert_cloexec (snd sv)) (\<lambda>_.
        ret sv))))))"

text \<open>Whether a descriptor is open in the process.\<close>

definition is_open :: "int \<Rightarrow> proc \<Rightarrow> bool" where
  "is_open fd p \<longleftrightarrow> fd \<in> fst ` set (fds p)"

section \<open>The ring buffer\<close>

text \<open>
  Modelled from the spec: the ring buffer.  Of it the sources hold \<^verbatim>\<open>ringbuf.h\<close>, which
  declares the functions, and not \<^verbatim>\<open>ringbuf.c\<close>, which defines them.  The model follows
  the specification: a fixed capacity, the number of bytes held, a read cursor and a
  write cursor modulo the capacity (the write cursor is the read cursor plus the bytes
  held); \<open>room = capacity - size\<close>; \<^verbatim>\<open>readable_iov\<close> and \<^verbatim>\<open>writable_iov\<close> give the next
  bytes to read or to write as two spans (offset and length), the second one for the
  part that wraps around; \<^verbatim>\<open>copy_in\<close> and \<^verbatim>\<open>copy_out\<close> are fatal when the request exceeds
  \<open>room\<close> or \<open>size\<close>; \<^verbatim>\<open>note_added\<close> and \<^verbatim>\<open>note_removed\<close> update the bookkeeping.
  \<^verbatim>\<open>copy_in\<close> notes what it added (its \<^verbatim>\<open>rb\<close> argument is not \<^verbatim>\<open>const\<close>);
  \<^verbatim>\<open>copy_out\<close> removes nothing (its \<^verbatim>\<open>rb\<close> argument is \<^verbatim>\<open>const\<close>).
\<close>

record ringbuf =
  rb_capacity :: nat
  rb_storage :: "byte list"
  rb_rpos :: nat
  rb_held :: nat

definition ringbuf_new :: "nat \<Rightarrow> ringbuf" where
  "ringbuf_new capacity =
     \<lparr>rb_capacity = capacity, rb_storage = replicate capacity 0, rb_rpos = 0, rb_held = 0\<rparr>"

definition ringbuf_capacity :: "ringbuf \<Rightarrow> nat" where
  "ringbuf_capacity rb = rb_capacity rb"

definition ringbuf_size :: "ringbuf \<Rightarrow> nat" where
  "ringbuf_size rb = rb_held rb"

definition ringbuf_room :: "ringbuf \<Rightarrow> nat" where
  "ringbuf_room rb = ringbuf_capacity rb - ringbuf_size rb"

definition ringbuf_readable_iov :: "ringbuf \<Rightarrow> nat \<Rightarrow> (nat \<times> nat) list" where
  "ringbuf_readable_iov rb sz =
     (let n = min sz (ringbuf_size rb);
          first = min n (rb_capacity rb - rb_rpos rb)
      in [(rb_rpos rb, first), (0, n - first)])"

definition ringbuf_writable_iov :: "ringbuf \<Rightarrow> nat \<Rightarrow> (nat \<times> nat) list" where
  "ringbuf_writable_iov rb sz =
     (let n = min sz (ringbuf_room rb);
          wpos = (rb_rpos rb + rb_held rb) mod rb_capacity rb;
          first = min n (rb_capacity rb - wpos)
      in [(wpos, first), (0, n - first)])"

definition ringbuf_note_added :: "ringbuf \<Rightarrow> nat \<Rightarrow> ringbuf" where
  "ringbuf_note_added rb nr = rb\<lparr>rb_held := rb_held rb + nr\<rparr>"

definition ringbuf_note_removed :: "ringbuf \<Rightarrow> nat \<Rightarrow> ringbuf" where
  "ringbuf_note_removed rb nr =
     rb\<lparr>rb_rpos := (rb_rpos rb + nr) mod rb_capacity rb, rb_held := rb_held rb - nr\<rparr>"

text \<open>Writing bytes at an offset of the storage, and copying through spans.\<close>

definition poke :: "byte list \<Rightarrow> nat \<Rightarrow> byte list \<Rightarrow> byte list" where
  "poke st off bs = take off st @ bs @ drop (off + length bs) st"

fun iov_write :: "byte list \<Rightarrow> (nat \<times> nat) list \<Rightarrow> byte list \<Rightarrow> byte list" where
  "iov_write st [] src = st"
| "iov_write st ((off, len) # iov) src = iov_write (poke st off (take len src)) iov (drop len src)"

fun iov_read :: "byte list \<Rightarrow> (nat \<times> nat) list \<Rightarrow> byte list" where
  "iov_read st [] = []"
| "iov_read st ((off, len) # iov) = slice st off len @ iov_read st iov"

definition ringbuf_copy_in :: "ringbuf \<Rightarrow> byte list \<Rightarrow> nat \<Rightarrow> failure + ringbuf" where
  "ringbuf_copy_in rb buf sz =
     (if sz > ringbuf_room rb then Inl Assertion_failed
      else Inr (ringbuf_note_added
                  (rb\<lparr>rb_storage := iov_write (rb_storage rb) (ringbuf_writable_iov rb sz) buf\<rparr>)
                  sz))"

definition ringbuf_copy_out :: "ringbuf \<Rightarrow> nat \<Rightarrow> failure + byte list" where
  "ringbuf_copy_out rb sz =
     (if sz > ringbuf_size rb then Inl Assertion_failed
      else Inr (iov_read (rb_storage rb) (ringbuf_readable_iov rb sz)))"

text \<open>
  The operations of a producer and a consumer: a write copies bytes in; a read copies
  \<open>n\<close> bytes out and notes them removed; the two bookkeeping calls stand for a caller
  that moved the bytes itself through the spans.
\<close>

datatype rb_op = Write "byte list" | Read nat | Note_added nat | Note_removed nat

definition rb_step :: "ringbuf \<Rightarrow> rb_op \<Rightarrow> failure + ringbuf" where
  "rb_step rb op =
     (case op of
        Write bs \<Rightarrow> ringbuf_copy_in rb bs (length bs)
      | Read n \<Rightarrow>
          (case ringbuf_copy_out rb n of
             Inl e \<Rightarrow> Inl e
           | Inr _ \<Rightarrow> Inr (ringbuf_note_removed rb n))
      | Note_added n \<Rightarrow> Inr (ringbuf_note_added rb n)
      | Note_removed n \<Rightarrow> Inr (ringbuf_note_removed rb n))"

text \<open>The buffer after each operation of a sequence, up to the first failure.\<close>

fun rb_trace :: "ringbuf \<Rightarrow> rb_op list \<Rightarrow> (failure + ringbuf) list" where
  "rb_trace rb [] = []"
| "rb_trace rb (op # ops) =
     (case rb_step rb op of
        Inl e \<Rightarrow> [Inl e]
      | Inr rb' \<Rightarrow> Inr rb' # rb_trace rb' ops)"

text \<open>The running total of bytes held, from \<open>t\<close> on, stays within the capacity, and no
  operation removes more than is held.\<close>

fun within_capacity :: "nat \<Rightarrow> nat \<Rightarrow> rb_op list \<Rightarrow> bool" where
  "within_capacity cap t [] = True"
| "within_capacity cap t (Write bs # ops) =
     (t + length bs \<le> cap \<and> within_capacity cap (t + length bs) ops)"
| "within_capacity cap t (Note_added n # ops) =
     (t + n \<le> cap \<and> within_capacity cap (t + n) ops)"
| "within_capacity cap t (Read n # ops) = (n \<le> t \<and> within_capacity cap (t - n) ops)"
| "within_capacity cap t (Note_removed n # ops) = (n \<le> t \<and> within_capacity cap (t - n) ops)"

text \<open>What holds of a buffer after each operation: the equation of the claim and the
  bounds on the size.\<close>

definition rb_balanced :: "nat \<Rightarrow> failure + ringbuf \<Rightarrow> bool" where
  "rb_balanced cap x =
     (case x of
        Inl e \<Rightarrow> False
      | Inr rb \<Rightarrow>
          ringbuf_capacity rb = cap \<and>
          ringbuf_size rb + ringbuf_room rb = ringbuf_capacity rb \<and>
          ringbuf_size rb \<le> ringbuf_capacity rb)"

section \<open>Facts about bytes in memory\<close>

lemma length_nat_le [simp]: "length (nat_le n v) = n"
  by (induction n arbitrary: v) auto

lemma nat_le_numeral:
  "nat_le (numeral k) v = of_nat (v mod 256) # nat_le (pred_numeral k) (v div 256)"
  by (simp only: numeral_eq_Suc [of k] nat_le.simps)

lemma le_nat_nat_le: "le_nat (nat_le n v) = v mod 256 ^ n"
proof (induction n arbitrary: v)
  case 0
  then show ?case by simp
next
  case (Suc n)
  have "unat (of_nat (v mod 256) :: byte) = v mod 256"
    by (simp add: unat_of_nat)
  then show ?case
    by (simp add: Suc mod_mult2_eq)
qed

lemma le_nat_bound: "le_nat bs < 256 ^ length bs"
proof (induction bs)
  case Nil
  then show ?case by simp
next
  case (Cons b bs)
  have "unat b < 2 ^ LENGTH(8)" by (rule unsigned_less)
  then have "unat b < 256" by simp
  with Cons show ?case by simp
qed

lemma length_slice [simp]: "length (slice m off n) = min n (length m - off)"
  by (simp add: slice_def)

lemma length_store [simp]: "off + n \<le> length m \<Longrightarrow> length (store n m off v) = length m"
  by (simp add: store_def)

lemma slice_store_same: "off + n \<le> length m \<Longrightarrow> slice (store n m off v) off n = nat_le n v"
  by (simp add: slice_def store_def)

lemma slice_store_below:
  "o' + n' \<le> off \<Longrightarrow> off + n \<le> length m \<Longrightarrow> slice (store n m off v) o' n' = slice m o' n'"
proof -
  assume a: "o' + n' \<le> off" "off + n \<le> length m"
  have "slice (store n m off v) o' n' = take n' (drop o' (take off m))"
    using a by (simp add: slice_def store_def)
  also have "\<dots> = take n' (take (off - o') (drop o' m))"
    by (simp add: drop_take)
  also have "\<dots> = take n' (drop o' m)"
    using a by (simp add: min_def)
  finally show ?thesis by (simp add: slice_def)
qed

lemma slice_store_above:
  "off + n \<le> o' \<Longrightarrow> off + n \<le> length m \<Longrightarrow> slice (store n m off v) o' n' = slice m o' n'"
  by (simp add: slice_def store_def)

lemma drop_store_above:
  "off + n \<le> d \<Longrightarrow> off + n \<le> length m \<Longrightarrow> drop d (store n m off v) = drop d m"
  by (simp add: store_def)

lemma take_store_below:
  "d \<le> off \<Longrightarrow> off \<le> length m \<Longrightarrow> take d (store n m off v) = take d m"
  by (simp add: store_def min_def)

lemma take_store_above:
  "off + n \<le> d \<Longrightarrow> off + n \<le> length m \<Longrightarrow> take d (store n m off v) = store n (take d m) off v"
proof -
  assume a: "off + n \<le> d" "off + n \<le> length m"
  have "take d (store n m off v) = take off m @ nat_le n v @ take (d - off - n) (drop (off + n) m)"
    using a by (simp add: store_def)
  moreover have "store n (take d m) off v = take off m @ nat_le n v @ take (d - (off + n)) (drop (off + n) m)"
    using a by (simp add: store_def drop_take min_def)
  ultimately show ?thesis by simp
qed

lemma slice_take: "off + n \<le> d \<Longrightarrow> slice (take d m) off n = slice m off n"
  by (simp add: slice_def drop_take min_def)

lemma slice_drop: "slice (drop d m) off n = slice m (d + off) n"
  by (simp add: slice_def add.commute)

lemma slice_append_right: "slice (xs @ ys) (length xs + k) n = slice ys k n"
  by (simp add: slice_def)

lemma slice_append_left: "k + n \<le> length xs \<Longrightarrow> slice (xs @ ys) k n = slice xs k n"
  by (simp add: slice_def)

lemma slice_all: "n = length xs \<Longrightarrow> slice (xs @ ys) 0 n = xs"
  by (simp add: slice_def)

lemma drop_add_eq: "drop d m = xs @ ys \<Longrightarrow> drop (d + length xs) m = ys"
  by (metis add.commute append_eq_conv_conj drop_drop)

section \<open>Facts about the decoding loop\<close>

lemma decode_blob_progress:
  "decode_blob m d e = Inr (blob, sz, d') \<Longrightarrow> d + sizeof_size_t \<le> d' \<and> d' \<le> e"
  by (auto simp: decode_blob_def sizeof_size_t_def Let_def split: if_splits)

lemma decode_blob_ok:
  assumes "drop d m = nat_le sizeof_size_t sz @ payload @ rest"
    and "length payload = sz" and "sz < 2 ^ 64"
  shows "decode_blob m d (length m) = Inr (d + sizeof_size_t, sz, d + sizeof_size_t + sz)"
proof -
  have len: "length m - d = sizeof_size_t + sz + length rest"
    using arg_cong [OF assms(1), of length] assms(2) by simp
  have "slice m d sizeof_size_t = nat_le sizeof_size_t sz"
    by (simp add: slice_def assms(1))
  then have "load sizeof_size_t m d = sz"
    using assms(3) by (simp add: load_def le_nat_nat_le sizeof_size_t_def)
  with len show ?thesis
    by (simp add: decode_blob_def Let_def)
qed

lemma decode_blob_truncated:
  assumes "drop d m = take k (nat_le sizeof_size_t sz @ payload)"
    and "k < sizeof_size_t + length payload"
    and "length payload = sz" and "sz < 2 ^ 64"
  shows "decode_blob m d (length m) = Inl (Die ECOMM ''truncated data'')"
proof -
  have len: "length m - d = k"
    using arg_cong [OF assms(1), of length] assms(2) by simp
  show ?thesis
  proof (cases "k < sizeof_size_t")
    case True
    with len show ?thesis by (simp add: decode_blob_def)
  next
    case False
    then have "slice m d sizeof_size_t = nat_le sizeof_size_t sz"
      by (simp add: slice_def assms(1))
    then have "load sizeof_size_t m d = sz"
      using assms(4) by (simp add: load_def le_nat_nat_le sizeof_size_t_def)
    with len False assms(2,3) show ?thesis
      by (auto simp add: decode_blob_def Let_def)
  qed
qed

lemma link_node_data [simp]: "data (link_node base s ai) = data s"
  by (simp add: link_node_def split: option.splits)

lemma gai_body_progress:
  assumes "gai_body base data_end s = Inr s'"
  shows "data s + 2 * sizeof_size_t \<le> data s' \<and> data s' \<le> data_end"
  using assms
  by (auto simp: gai_body_def Let_def split: sum.splits if_splits prod.splits
           dest!: decode_blob_progress)

lemma gai_loop_total: "\<exists>r. gai_loop base data_end s = Some r"
proof (induction "data_end - data s" arbitrary: s rule: less_induct)
  case less
  show ?case
  proof (cases "data s < data_end")
    case False
    then show ?thesis by (subst gai_loop.simps) simp
  next
    case True
    show ?thesis
    proof (cases "gai_body base data_end s")
      case (Inl e)
      with True show ?thesis by (subst gai_loop.simps) simp
    next
      case (Inr s')
      from gai_body_progress [OF Inr] True
      have "data_end - data s' < data_end - data s"
        by (auto simp: sizeof_size_t_def)
      from less [OF this] obtain r where "gai_loop base data_end s' = Some r" ..
      with True Inr show ?thesis by (subst gai_loop.simps) simp
    qed
  qed
qed

lemma strlen_bound: "0 \<in> set s \<Longrightarrow> strlen s + 1 \<le> length s"
  unfolding strlen_def by (induction s) auto

lemma load_int_bound: "load 4 m off < 2 ^ 32"
proof -
  have "le_nat (slice m off 4) < 256 ^ length (slice m off 4)" by (rule le_nat_bound)
  also have "\<dots> \<le> 256 ^ 4" by (rule power_increasing) simp_all
  finally show ?thesis by (simp add: load_def)
qed

lemma length_write_blob: "sz \<le> length d \<Longrightarrow> length (write_blob d sz) = sizeof_size_t + sz"
  by (simp add: write_blob_def)

lemma length_write_node: "node_ok ai \<Longrightarrow> length (write_node ai) = node_len ai"
  by (auto simp: write_node_def node_ok_def node_len_def has_canon_def length_write_blob
      dest: strlen_bound)

lemma slice_slice: "k + j \<le> n \<Longrightarrow> slice (slice m a n) k j = slice m (a + k) j"
proof -
  assume a: "k + j \<le> n"
  have "slice (slice m a n) k j = take j (take (n - k) (drop k (drop a m)))"
    by (simp add: slice_def drop_take)
  also have "\<dots> = take j (drop k (drop a m))"
    using a by (simp add: min_def)
  also have "\<dots> = slice m (a + k) j"
    by (simp add: slice_def add.commute)
  finally show ?thesis .
qed

lemma gai_body_without_canonname:
  assumes "decode_blob (mem s) (data s) e = Inr (ai, sizeof_addrinfo, d1)"
    and "decode_blob (mem s) d1 e = Inr (addr, sz2, d2)"
    and "m1 = store_ptr (mem s) (ai + off_ai_addr) (base + addr)"
    and "load_int m1 (ai + off_ai_addrlen) = sz2"
    and "load_ptr m1 (ai + off_ai_canonname) = 0"
  shows "gai_body base e s = Inr (link_node base (s\<lparr>mem := m1, data := d2\<rparr>) ai)"
  using assms(1,2,4,5) unfolding assms(3) by (simp add: gai_body_def Let_def)

lemma gai_body_with_canonname:
  assumes "decode_blob (mem s) (data s) e = Inr (ai, sizeof_addrinfo, d1)"
    and "decode_blob (mem s) d1 e = Inr (addr, sz2, d2)"
    and "m1 = store_ptr (mem s) (ai + off_ai_addr) (base + addr)"
    and "load_int m1 (ai + off_ai_addrlen) = sz2"
    and "load_ptr m1 (ai + off_ai_canonname) \<noteq> 0"
    and "decode_blob m1 d2 e = Inr (cn, sz3, d3)"
  shows "gai_body base e s =
           Inr (link_node base
                  (s\<lparr>mem := store_ptr m1 (ai + off_ai_canonname) (base + cn), data := d3\<rparr>) ai)"
  using assms(1,2,4,5,6) unfolding assms(3) by (simp add: gai_body_def Let_def)

lemma gai_body_fail1:
  "decode_blob (mem s) (data s) e = Inl x \<Longrightarrow> gai_body base e s = Inl x"
  by (simp add: gai_body_def)

lemma gai_body_fail2:
  assumes "decode_blob (mem s) (data s) e = Inr (ai, sizeof_addrinfo, d1)"
    and "decode_blob (mem s) d1 e = Inl x"
  shows "gai_body base e s = Inl x"
  using assms by (simp add: gai_body_def)

lemma gai_body_fail3:
  assumes "decode_blob (mem s) (data s) e = Inr (ai, sizeof_addrinfo, d1)"
    and "decode_blob (mem s) d1 e = Inr (addr, sz2, d2)"
    and "m1 = store_ptr (mem s) (ai + off_ai_addr) (base + addr)"
    and "load_int m1 (ai + off_ai_addrlen) = sz2"
    and "load_ptr m1 (ai + off_ai_canonname) \<noteq> 0"
    and "decode_blob m1 d2 e = Inl x"
  shows "gai_body base e s = Inl x"
  using assms(1,2,4,5,6) unfolding assms(3) by (simp add: gai_body_def Let_def)

text \<open>The first two blobs of a node, whatever follows them.\<close>

lemma two_blobs:
  assumes ok: "node_ok n"
    and dr: "drop d m = write_blob (raw n) sizeof_addrinfo
                 @ write_blob (addr_mem n) (load_int (raw n) off_ai_addrlen) @ tail"
    and al: "al = load_int (raw n) off_ai_addrlen"
    and m1: "m1 = store_ptr m (d + 32) (base + (d + 64))"
  shows "decode_blob m d (length m) = Inr (d + 8, 48, d + 56)"
    and "decode_blob m (d + 56) (length m) = Inr (d + 64, al, d + 64 + al)"
    and "d + 64 + al + length tail = length m"
    and "length m1 = length m"
    and "slice m (d + 8) 48 = raw n"
    and "slice m (d + 64) al = take al (addr_mem n)"
    and "load_int m1 (d + 24) = al"
    and "load_ptr m1 (d + 40) = load_ptr (raw n) off_ai_canonname"
    and "drop (d + 64 + al) m1 = tail"
proof -
  have lraw: "length (raw n) = 48"
    using ok by (simp add: node_ok_def sizeof_addrinfo_def)
  have lal: "al \<le> length (addr_mem n)"
    using ok by (simp add: node_ok_def al)
  have dr1: "drop d m = nat_le sizeof_size_t 48 @ raw n
                @ (nat_le sizeof_size_t al @ take al (addr_mem n) @ tail)"
    using dr lraw by (simp add: write_blob_def sizeof_addrinfo_def al)
  show b1: "decode_blob m d (length m) = Inr (d + 8, 48, d + 56)"
    using decode_blob_ok [OF dr1 lraw] by (simp add: sizeof_size_t_def)
  have dr2: "drop (d + 56) m = nat_le sizeof_size_t al @ take al (addr_mem n) @ tail"
    using drop_add_eq [of d m "nat_le sizeof_size_t 48 @ raw n"
        "nat_le sizeof_size_t al @ take al (addr_mem n) @ tail"] dr1 lraw
    by (simp add: sizeof_size_t_def)
  have al64: "al < 2 ^ 64"
    using load_int_bound [of "raw n" off_ai_addrlen] by (simp add: al)
  show b2: "decode_blob m (d + 56) (length m) = Inr (d + 64, al, d + 64 + al)"
    using decode_blob_ok [OF dr2 _ al64] lal by (simp add: sizeof_size_t_def)
  have "length (drop (d + 56) m) = 8 + al + length tail"
    using lal by (simp only: dr2) (simp add: sizeof_size_t_def)
  moreover have "d + 64 + al \<le> length m"
    using decode_blob_progress [OF b2] by simp
  ultimately show len: "d + 64 + al + length tail = length m"
    by simp
  then have lm: "d + 64 + al \<le> length m" by simp
  show lm1: "length m1 = length m"
    using lm by (simp add: m1)
  show hdr: "slice m (d + 8) 48 = raw n"
    using dr1 lraw slice_drop [of d m 8 48, symmetric]
    by (simp add: slice_def sizeof_size_t_def)
  show "slice m (d + 64) al = take al (addr_mem n)"
    using dr2 lal slice_drop [of "d + 56" m 8 al, symmetric]
    by (simp add: slice_def sizeof_size_t_def add.commute)
  have fld: "slice m (d + k) j = slice (raw n) (k - 8) j" if "8 \<le> k" "k + j \<le> 56" for k j
  proof -
    have e: "d + 8 + (k - 8) = d + k" using that by arith
    have "k - 8 + j \<le> 48" using that by arith
    from slice_slice [OF this, of m "d + 8"] show ?thesis by (simp only: e hdr)
  qed
  show "load_int m1 (d + 24) = al"
    using slice_store_below [of "d + 24" 4 "d + 32" 8 m] lm fld [of 24 4]
    by (simp add: load_def m1 al off_ai_addrlen_def)
  show "load_ptr m1 (d + 40) = load_ptr (raw n) off_ai_canonname"
    using slice_store_above [of "d + 32" 8 "d + 40" m] lm fld [of 40 8]
    by (simp add: load_def m1 off_ai_canonname_def)
  have "drop (d + 64 + al) m1 = drop (d + 64 + al) m"
    unfolding m1 using lm by (intro drop_store_above) simp_all
  also have "\<dots> = tail"
    using drop_add_eq [of "d + 56" m "nat_le sizeof_size_t al @ take al (addr_mem n)" tail]
      dr2 lal by (simp add: sizeof_size_t_def add.assoc)
  finally show "drop (d + 64 + al) m1 = tail" .
qed

lemma node_offsets:
  "d + 8 + off_ai_addr = d + 32" "d + 8 + off_ai_addrlen = d + 24"
  "d + 8 + off_ai_canonname = d + 40" "d + 8 + off_ai_next = d + 48"
  by (simp_all add: off_ai_addr_def off_ai_addrlen_def off_ai_canonname_def off_ai_next_def)

lemma canon_blob_size:
  assumes "node_ok n" and "has_canon n"
  shows "strlen (canon_mem n) + 1 \<le> length (canon_mem n)" and "strlen (canon_mem n) + 1 < 2 ^ 64"
  using assms strlen_bound [of "canon_mem n"] by (auto simp: node_ok_def has_canon_def)

lemma gai_body_ok:
  assumes ok: "node_ok n" and dr: "drop (data s) (mem s) = write_node n @ rest"
  shows "gai_body base (length (mem s)) s =
           Inr (link_node base (s\<lparr>mem := decoded_mem base s n, data := data s + node_len n\<rparr>)
                  (data s + 8))"
proof -
  define d where "d = data s"
  define m where "m = mem s"
  define al where "al = load_int (raw n) off_ai_addrlen"
  define cl where "cl = strlen (canon_mem n) + 1"
  define B3 where "B3 = (if has_canon n then write_blob (canon_mem n) cl else [])"
  define m1 where "m1 = store_ptr m (d + 32) (base + (d + 64))"
  have dr1: "drop d m = write_blob (raw n) sizeof_addrinfo
               @ write_blob (addr_mem n) (load_int (raw n) off_ai_addrlen) @ (B3 @ rest)"
    using dr by (simp add: d_def m_def write_node_def B3_def cl_def has_canon_def)
  note tb = two_blobs [OF ok dr1 al_def m1_def]
  have b1: "decode_blob (mem s) (data s) (length (mem s)) = Inr (d + 8, sizeof_addrinfo, d + 56)"
    using tb(1) by (simp add: d_def m_def sizeof_addrinfo_def)
  have b2: "decode_blob (mem s) (d + 56) (length (mem s)) = Inr (d + 64, al, d + 64 + al)"
    using tb(2) by (simp add: m_def)
  have s1: "m1 = store_ptr (mem s) (d + 8 + off_ai_addr) (base + (d + 64))"
    by (simp only: m1_def m_def node_offsets)
  have l1: "load_int m1 (d + 8 + off_ai_addrlen) = al"
    using tb(7) by (simp only: node_offsets)
  show ?thesis
  proof (cases "has_canon n")
    case False
    have A: "gai_body base (length (mem s)) s =
        Inr (link_node base (s\<lparr>mem := m1, data := d + 64 + al\<rparr>) (d + 8))"
    proof (rule gai_body_without_canonname [OF b1 b2 s1 l1])
      show "load_ptr m1 (d + 8 + off_ai_canonname) = 0"
        using tb(8) False by (simp only: node_offsets) (simp add: has_canon_def)
    qed
    have B: "d + 64 + al = data s + node_len n"
      using False by (simp add: node_len_def d_def al_def sizeof_size_t_def sizeof_addrinfo_def)
    have C: "m1 = decoded_mem base s n"
      using False by (simp add: decoded_mem_def m1_def d_def m_def Let_def)
    from A [unfolded B C] show ?thesis by (simp only: d_def)
  next
    case True
    have lcl: "cl \<le> length (canon_mem n)" and cl64: "cl < 2 ^ 64"
      using canon_blob_size [OF ok True] by (simp_all add: cl_def)
    have "drop (d + 64 + al) m1 = nat_le sizeof_size_t cl @ take cl (canon_mem n) @ rest"
      using tb(9) True by (simp add: B3_def write_blob_def)
    from decode_blob_ok [OF this _ cl64] lcl
    have b3: "decode_blob m1 (d + 64 + al) (length (mem s)) = Inr (d + 72 + al, cl, d + 72 + al + cl)"
      by (simp add: tb(4) m_def [symmetric] sizeof_size_t_def)
    have A: "gai_body base (length (mem s)) s =
        Inr (link_node base
               (s\<lparr>mem := store_ptr m1 (d + 8 + off_ai_canonname) (base + (d + 72 + al)),
                  data := d + 72 + al + cl\<rparr>)
               (d + 8))"
    proof (rule gai_body_with_canonname [OF b1 b2 s1 l1 _ b3])
      show "load_ptr m1 (d + 8 + off_ai_canonname) \<noteq> 0"
        using tb(8) True by (simp only: node_offsets) (simp add: has_canon_def)
    qed
    have B: "d + 72 + al + cl = data s + node_len n"
      using True by (simp add: node_len_def d_def al_def cl_def sizeof_size_t_def sizeof_addrinfo_def)
    have C: "store_ptr m1 (d + 8 + off_ai_canonname) (base + (d + 72 + al)) = decoded_mem base s n"
      using True by (simp only: node_offsets) (simp add: decoded_mem_def m1_def d_def m_def al_def Let_def)
    from A [unfolded B C] show ?thesis by (simp only: d_def)
  qed
qed

lemma gai_body_truncated:
  assumes ok: "node_ok n" and dr: "drop (data s) (mem s) = take k (write_node n)"
    and k0: "0 < k" and kl: "k < node_len n"
  shows "gai_body base (length (mem s)) s = Inl (Die ECOMM ''truncated data'')"
proof -
  define d where "d = data s"
  define m where "m = mem s"
  define al where "al = load_int (raw n) off_ai_addrlen"
  define cl where "cl = strlen (canon_mem n) + 1"
  define B1 where "B1 = write_blob (raw n) sizeof_addrinfo"
  define B2 where "B2 = write_blob (addr_mem n) al"
  define B3 where "B3 = (if has_canon n then write_blob (canon_mem n) cl else [])"
  have lraw: "length (raw n) = 48"
    using ok by (simp add: node_ok_def sizeof_addrinfo_def)
  have lal: "al \<le> length (addr_mem n)"
    using ok by (simp add: node_ok_def al_def)
  have al64: "al < 2 ^ 64"
    using load_int_bound [of "raw n" off_ai_addrlen] by (simp add: al_def)
  have wn: "write_node n = B1 @ B2 @ B3"
    by (simp add: write_node_def B1_def B2_def B3_def al_def cl_def has_canon_def)
  have B1: "B1 = nat_le sizeof_size_t 48 @ raw n" and lB1: "length B1 = 56"
    using lraw by (simp_all add: B1_def write_blob_def sizeof_addrinfo_def sizeof_size_t_def)
  have B2: "B2 = nat_le sizeof_size_t al @ take al (addr_mem n)" and lB2: "length B2 = 8 + al"
    using lal by (simp_all add: B2_def write_blob_def sizeof_size_t_def)
  have dr': "drop d m = take k (B1 @ B2 @ B3)"
    using dr by (simp add: d_def m_def wn)
  consider (one) "k < 56" | (two) "56 \<le> k" "k < 64 + al" | (three) "64 + al \<le> k"
    by arith
  then show ?thesis
  proof cases
    case one
    then have "drop d m = take k (nat_le sizeof_size_t 48 @ raw n)"
      using dr' lB1 by (simp add: B1 [symmetric])
    from decode_blob_truncated [OF this _ lraw] one
    have "decode_blob m d (length m) = Inl (Die ECOMM ''truncated data'')"
      by (simp add: lraw sizeof_size_t_def)
    then show ?thesis
      unfolding d_def m_def by (rule gai_body_fail1)
  next
    case two
    have t: "take k (B1 @ B2 @ B3) = B1 @ take (k - 56) B2"
      using two lB1 lB2 by simp
    have dr1: "drop d m = nat_le sizeof_size_t 48 @ raw n @ take (k - 56) B2"
      using dr' t by (simp add: B1)
    have b1: "decode_blob m d (length m) = Inr (d + 8, sizeof_addrinfo, d + 56)"
      using decode_blob_ok [OF dr1 lraw] by (simp add: sizeof_size_t_def sizeof_addrinfo_def)
    have "drop (d + 56) m = take (k - 56) (nat_le sizeof_size_t al @ take al (addr_mem n))"
      using drop_add_eq [of d m B1 "take (k - 56) B2"] dr' t lB1 by (simp add: B2)
    from decode_blob_truncated [OF this _ _ al64] two lal
    have "decode_blob m (d + 56) (length m) = Inl (Die ECOMM ''truncated data'')"
      by (simp add: sizeof_size_t_def)
    with b1 show ?thesis
      unfolding d_def m_def by (rule gai_body_fail2)
  next
    case three
    have hc: "has_canon n"
      using three kl by (auto simp: node_len_def al_def sizeof_size_t_def sizeof_addrinfo_def
          split: if_splits)
    then have B3: "B3 = nat_le sizeof_size_t cl @ take cl (canon_mem n)"
      by (simp add: B3_def write_blob_def)
    have lcl: "cl \<le> length (canon_mem n)" and cl64: "cl < 2 ^ 64"
      using canon_blob_size [OF ok hc] by (simp_all add: cl_def)
    have k3: "k - (64 + al) < sizeof_size_t + length (take cl (canon_mem n))"
      using kl hc lcl by (simp add: node_len_def al_def cl_def sizeof_size_t_def sizeof_addrinfo_def)
    have t: "take k (B1 @ B2 @ B3) = B1 @ B2 @ take (k - (64 + al)) B3"
      using three lB1 lB2 by simp
    define m1 where "m1 = store_ptr m (d + 32) (base + (d + 64))"
    have dr1: "drop d m = write_blob (raw n) sizeof_addrinfo
                 @ write_blob (addr_mem n) (load_int (raw n) off_ai_addrlen)
                 @ take (k - (64 + al)) B3"
      using dr' t by (simp add: B1_def B2_def al_def)
    note tb = two_blobs [OF ok dr1 al_def m1_def]
    have "drop (d + 64 + al) m1 = take (k - (64 + al)) (nat_le sizeof_size_t cl @ take cl (canon_mem n))"
      using tb(9) by (simp add: B3)
    from decode_blob_truncated [OF this k3 _ cl64] lcl
    have b3: "decode_blob m1 (d + 64 + al) (length m) = Inl (Die ECOMM ''truncated data'')"
      by (simp add: tb(4))
    show ?thesis
    proof (rule gai_body_fail3)
      show "decode_blob (mem s) (data s) (length (mem s)) = Inr (d + 8, sizeof_addrinfo, d + 56)"
        using tb(1) by (simp add: d_def m_def sizeof_addrinfo_def)
      show "decode_blob (mem s) (d + 56) (length (mem s)) = Inr (d + 64, al, d + 64 + al)"
        using tb(2) by (simp add: m_def)
      show "m1 = store_ptr (mem s) (d + 8 + off_ai_addr) (base + (d + 64))"
        by (simp only: m1_def m_def node_offsets)
      show "load_int m1 (d + 8 + off_ai_addrlen) = al"
        using tb(7) by (simp only: node_offsets)
      show "load_ptr m1 (d + 8 + off_ai_canonname) \<noteq> 0"
        using tb(8) hc by (simp only: node_offsets) (simp add: has_canon_def)
      show "decode_blob m1 (d + 64 + al) (length (mem s)) = Inl (Die ECOMM ''truncated data'')"
        using b3 by (simp add: m_def)
    qed
  qed
qed

lemma slice_store_frame:
  assumes "a + k \<le> off \<or> off + 8 \<le> a" and "off + 8 \<le> length m"
  shows "slice (store_ptr m off v) a k = slice m a k"
  using assms slice_store_below [of a k off 8 m v] slice_store_above [of off 8 a m v k]
  by auto

lemma load_store_ptr:
  assumes "off + 8 \<le> length m" and "v < 2 ^ 64"
  shows "load_ptr (store_ptr m off v) off = v"
  using assms by (simp add: load_def slice_store_same le_nat_nat_le)

lemma node_len_ge: "64 \<le> node_len n"
  by (simp add: node_len_def sizeof_size_t_def sizeof_addrinfo_def)

lemma node_image_decoded:
  assumes ok: "node_ok n" and dr: "drop (data s) (mem s) = write_node n @ rest"
  shows "node_image base (decoded_mem base s n) (data s) n"
proof -
  define d where "d = data s"
  define m where "m = mem s"
  define al where "al = load_int (raw n) off_ai_addrlen"
  define cl where "cl = strlen (canon_mem n) + 1"
  define B3 where "B3 = (if has_canon n then write_blob (canon_mem n) cl else [])"
  define m1 where "m1 = store_ptr m (d + 32) (base + (d + 64))"
  have dr1: "drop d m = write_blob (raw n) sizeof_addrinfo
               @ write_blob (addr_mem n) (load_int (raw n) off_ai_addrlen) @ (B3 @ rest)"
    using dr by (simp add: d_def m_def write_node_def B3_def cl_def has_canon_def)
  note tb = two_blobs [OF ok dr1 al_def m1_def]
  have lm: "d + 64 + al \<le> length m" using tb(3) by simp
  have lraw: "length (raw n) = 48"
    using ok by (simp add: node_ok_def sizeof_addrinfo_def)
  have f24: "slice m (d + 8) 24 = take 24 (raw n)"
  proof -
    have "slice (slice m (d + 8) 48) 0 24 = slice m (d + 8) 24"
      using slice_slice [of 0 24 48 m "d + 8"] by simp
    then show ?thesis unfolding tb(5) by (simp add: slice_def)
  qed
  have f40: "slice m (d + 40) 8 = slice (raw n) 32 8"
  proof -
    have "slice (slice m (d + 8) 48) 32 8 = slice m (d + 40) 8"
      using slice_slice [of 32 8 48 m "d + 8"] by (simp add: add.assoc)
    then show ?thesis unfolding tb(5) by simp
  qed
  have i1: "slice m1 (d + 8) 24 = take 24 (raw n)"
    unfolding m1_def using lm f24 by (subst slice_store_frame) simp_all
  have i2: "slice m1 (d + 32) 8 = nat_le 8 (base + (d + 64))"
    unfolding m1_def using lm by (intro slice_store_same) simp
  have i3: "slice m1 (d + 64) al = take al (addr_mem n)"
    unfolding m1_def using lm tb(6) by (subst slice_store_frame) simp_all
  have i4: "slice m1 (d + 40) 8 = slice (raw n) 32 8"
    unfolding m1_def using lm f40 by (subst slice_store_frame) simp_all
  show ?thesis
  proof (cases "has_canon n")
    case False
    then have "decoded_mem base s n = m1"
      by (simp add: decoded_mem_def m1_def d_def m_def Let_def)
    with False i1 i2 i3 i4 show ?thesis
      unfolding d_def al_def by (simp add: node_image_def Let_def)
  next
    case True
    define m2 where "m2 = store_ptr m1 (d + 40) (base + (d + 72 + al))"
    have dm: "decoded_mem base s n = m2"
      using True by (simp add: decoded_mem_def m2_def m1_def d_def m_def al_def Let_def)
    have lcl: "cl \<le> length (canon_mem n)"
      using canon_blob_size [OF ok True] by (simp add: cl_def)
    have dr3: "drop (d + 64 + al) m = nat_le sizeof_size_t cl @ take cl (canon_mem n) @ rest"
    proof -
      have "drop (d + 64 + al) m1 = drop (d + 64 + al) m"
        unfolding m1_def using lm by (intro drop_store_above) simp_all
      then show ?thesis using tb(9) True by (simp add: B3_def write_blob_def)
    qed
    have c: "slice m (d + 72 + al) cl = take cl (canon_mem n)"
      using dr3 lcl slice_drop [of "d + 64 + al" m 8 cl, symmetric]
      by (simp add: slice_def sizeof_size_t_def add.commute add.left_commute)
    have lm1: "d + 48 \<le> length m1" using lm tb(4) by simp
    have j1: "slice m2 (d + 8) 24 = take 24 (raw n)"
      unfolding m2_def using lm1 i1 by (subst slice_store_frame) simp_all
    have j2: "slice m2 (d + 32) 8 = nat_le 8 (base + (d + 64))"
      unfolding m2_def using lm1 i2 by (subst slice_store_frame) simp_all
    have j3: "slice m2 (d + 64) al = take al (addr_mem n)"
      unfolding m2_def using lm1 i3 by (subst slice_store_frame) simp_all
    have j4: "slice m2 (d + 40) 8 = nat_le 8 (base + (d + 72 + al))"
      unfolding m2_def using lm1 by (intro slice_store_same) simp
    have "slice m1 (d + 72 + al) cl = take cl (canon_mem n)"
      unfolding m1_def using lm c by (subst slice_store_frame) simp_all
    then have j5: "slice m2 (d + 72 + al) cl = take cl (canon_mem n)"
      unfolding m2_def using lm1 by (subst slice_store_frame) simp_all
    from True j1 j2 j3 j4 j5 show ?thesis
      unfolding d_def al_def cl_def by (simp add: node_image_def Let_def dm)
  qed
qed

lemma node_image_store:
  assumes "node_image base m d n" and "off + 8 \<le> d + 8 \<or> off = d + 48"
    and "off + 8 \<le> length m"
  shows "node_image base (store_ptr m off v) d n"
  using assms(2)
proof
  assume "off + 8 \<le> d + 8"
  with assms(1,3) show ?thesis
    by (simp add: node_image_def Let_def slice_store_frame)
next
  assume "off = d + 48"
  with assms(1,3) show ?thesis
    by (simp add: node_image_def Let_def slice_store_frame)
qed

lemma slice_cong_take:
  "take e m' = take e m \<Longrightarrow> a + k \<le> e \<Longrightarrow> slice m' a k = slice m a k"
  by (metis slice_take)

lemma node_image_take:
  assumes "node_image base m d n" and "take e m' = take e m" and "d + node_len n \<le> e"
  shows "node_image base m' d n"
proof -
  note c = slice_cong_take [OF assms(2)]
  have "64 + load_int (raw n) off_ai_addrlen \<le> node_len n"
    by (simp add: node_len_def sizeof_size_t_def sizeof_addrinfo_def)
  moreover have "has_canon n \<Longrightarrow>
      72 + load_int (raw n) off_ai_addrlen + (strlen (canon_mem n) + 1) \<le> node_len n"
    by (simp add: node_len_def sizeof_size_t_def sizeof_addrinfo_def)
  ultimately show ?thesis
    using assms(1,3) by (auto simp add: node_image_def Let_def c)
qed

lemma cstring_prefix:
  assumes "0 \<in> set c" and "take (strlen c + 1) xs = take (strlen c + 1) c"
  shows "takeWhile (\<lambda>b. b \<noteq> 0) xs = takeWhile (\<lambda>b. b \<noteq> 0) c"
  using assms
proof (induction c arbitrary: xs)
  case Nil
  then show ?case by simp
next
  case (Cons b c)
  show ?case
  proof (cases "b = 0")
    case True
    with Cons.prems(2) show ?thesis
      by (cases xs) (simp_all add: strlen_def)
  next
    case False
    with Cons.prems obtain xs' where xs: "xs = b # xs'"
      and t: "take (strlen c + 1) xs' = take (strlen c + 1) c"
      by (cases xs) (simp_all add: strlen_def)
    from False Cons.prems(1) have "0 \<in> set c" by simp
    from Cons.IH [OF this t] False xs show ?thesis by simp
  qed
qed

lemma view_of_image:
  assumes im: "node_image base m d n" and ok: "node_ok n"
    and b: "base + length m < 2 ^ 64" and l: "d + node_len n \<le> length m"
  shows "view_parent base m (base + (d + 8)) = view_child n"
proof -
  define al where "al = load_int (raw n) off_ai_addrlen"
  from im have f24: "slice m (d + 8) 24 = take 24 (raw n)"
    and fa: "slice m (d + 32) 8 = nat_le 8 (base + (d + 64))"
    and fb: "slice m (d + 64) al = take al (addr_mem n)"
    by (simp_all add: node_image_def Let_def al_def)
  have fld: "load_int m (d + 8 + k) = load_int (raw n) k" if "k + 4 \<le> 24" for k
  proof -
    have "slice (slice m (d + 8) 24) k 4 = slice m (d + 8 + k) 4"
      using that by (rule slice_slice)
    moreover have "slice (take 24 (raw n)) k 4 = slice (raw n) k 4"
      using that by (rule slice_take)
    ultimately show ?thesis by (simp add: load_def f24)
  qed
  have nl: "64 \<le> node_len n" by (rule node_len_ge)
  have pa: "load_ptr m (d + 32) = base + (d + 64)"
    using b l nl by (simp add: load_def fa le_nat_nat_le)
  have v1: "load_int m (d + 8 + off_ai_flags) = load_int (raw n) off_ai_flags"
    unfolding off_ai_flags_def by (rule fld) simp
  have v2: "load_int m (d + 8 + off_ai_family) = load_int (raw n) off_ai_family"
    unfolding off_ai_family_def by (rule fld) simp
  have v3: "load_int m (d + 8 + off_ai_socktype) = load_int (raw n) off_ai_socktype"
    unfolding off_ai_socktype_def by (rule fld) simp
  have v4: "load_int m (d + 8 + off_ai_protocol) = load_int (raw n) off_ai_protocol"
    unfolding off_ai_protocol_def by (rule fld) simp
  have v5: "load_int m (d + 8 + off_ai_addrlen) = al"
    unfolding off_ai_addrlen_def al_def by (rule fld) simp
  have v6: "slice m (load_ptr m (d + 8 + off_ai_addr) - base) al = take al (addr_mem n)"
    by (simp only: node_offsets pa) (simp add: fb)
  have v7: "(if load_ptr m (d + 8 + off_ai_canonname) \<noteq> 0
             then Some (takeWhile (\<lambda>b. b \<noteq> 0)
                          (drop (load_ptr m (d + 8 + off_ai_canonname) - base) m))
             else None)
            = (if load_ptr (raw n) off_ai_canonname \<noteq> 0
               then Some (takeWhile (\<lambda>b. b \<noteq> 0) (canon_mem n)) else None)"
  proof (cases "has_canon n")
    case False
    with im have "slice m (d + 40) 8 = slice (raw n) 32 8"
      by (simp add: node_image_def Let_def)
    then have "load_ptr m (d + 40) = load_ptr (raw n) off_ai_canonname"
      by (simp add: load_def off_ai_canonname_def)
    with False show ?thesis
      by (simp only: node_offsets) (simp add: has_canon_def)
  next
    case True
    define cl where "cl = strlen (canon_mem n) + 1"
    from True im have fc: "slice m (d + 40) 8 = nat_le 8 (base + (d + 72 + al))"
      and fd: "slice m (d + 72 + al) cl = take cl (canon_mem n)"
      by (simp_all add: node_image_def Let_def al_def cl_def)
    have "72 + al + cl \<le> node_len n"
      using True by (simp add: node_len_def al_def cl_def sizeof_size_t_def sizeof_addrinfo_def)
    with b l have "base + (d + 72 + al) < 2 ^ 64" by simp
    then have pc: "load_ptr m (d + 40) = base + (d + 72 + al)"
      by (simp add: load_def fc le_nat_nat_le)
    have z: "0 \<in> set (canon_mem n)"
      using ok True by (simp add: node_ok_def has_canon_def)
    have "takeWhile (\<lambda>b. b \<noteq> 0) (drop (d + 72 + al) m) = takeWhile (\<lambda>b. b \<noteq> 0) (canon_mem n)"
      using fd by (intro cstring_prefix [OF z]) (simp add: slice_def cl_def)
    with True pc show ?thesis
      by (simp only: node_offsets) (simp add: has_canon_def)
  qed
  have e: "base + (d + 8) - base = d + 8" by simp
  show ?thesis
    unfolding view_parent_def view_child_def Let_def e
    by (simp only: v1 v2 v3 v4 v5 [unfolded al_def] v6 [unfolded al_def] v7)
qed

lemma length_xgai_preexec_1:
  "\<forall>n\<in>set ns. node_ok n \<Longrightarrow> length (xgai_preexec_1 ns) = sum_list (map node_len ns)"
  by (induction ns) (simp_all add: length_write_node)

lemma decoded_mem_frame:
  assumes ok: "node_ok n" and dr: "drop (data s) (mem s) = write_node n @ rest"
  shows "length (decoded_mem base s n) = length (mem s)"
    and "take (data s) (decoded_mem base s n) = take (data s) (mem s)"
    and "drop (data s + node_len n) (decoded_mem base s n) = rest"
    and "slice (decoded_mem base s n) (data s + 48) 8 = slice (raw n) 40 8"
    and "data s + node_len n + length rest = length (mem s)"
proof -
  define d where "d = data s"
  define m where "m = mem s"
  define al where "al = load_int (raw n) off_ai_addrlen"
  define cl where "cl = strlen (canon_mem n) + 1"
  define B3 where "B3 = (if has_canon n then write_blob (canon_mem n) cl else [])"
  define m1 where "m1 = store_ptr m (d + 32) (base + (d + 64))"
  define v where "v = base + (d + 72 + al)"
  define DM where "DM = decoded_mem base s n"
  have dr1: "drop d m = write_blob (raw n) sizeof_addrinfo
               @ write_blob (addr_mem n) (load_int (raw n) off_ai_addrlen) @ (B3 @ rest)"
    using dr by (simp add: d_def m_def write_node_def B3_def cl_def has_canon_def)
  note tb = two_blobs [OF ok dr1 al_def m1_def]
  have lm: "d + 64 + al \<le> length m" using tb(3) by simp
  have DM: "DM = (if has_canon n then store_ptr m1 (d + 40) v else m1)"
    by (simp add: DM_def decoded_mem_def m1_def d_def m_def al_def v_def Let_def)
  have nl: "node_len n = 64 + al + length B3"
    using canon_blob_size(1) [OF ok]
    by (simp add: node_len_def B3_def al_def cl_def write_blob_def sizeof_size_t_def sizeof_addrinfo_def)
  show "length (decoded_mem base s n) = length (mem s)"
    using lm tb(4) by (simp add: DM_def [symmetric] DM m_def [symmetric])
  have "take d DM = take d m1"
    using lm tb(4) by (simp add: DM take_store_below)
  also have "\<dots> = take d m"
    using lm by (simp add: m1_def take_store_below)
  finally show "take (data s) (decoded_mem base s n) = take (data s) (mem s)"
    by (simp add: DM_def d_def m_def)
  have "drop (d + 64 + al) DM = drop (d + 64 + al) m1"
    using lm tb(4) by (simp add: DM drop_store_above)
  then have "drop (d + 64 + al) DM = B3 @ rest"
    by (simp add: tb(9))
  from drop_add_eq [OF this] show "drop (data s + node_len n) (decoded_mem base s n) = rest"
    by (simp add: nl DM_def d_def add.assoc)
  have "slice (slice m (d + 8) 48) 40 8 = slice m (d + 48) 8"
    using slice_slice [of 40 8 48 m "d + 8"] by (simp add: add.assoc)
  then have "slice m (d + 48) 8 = slice (raw n) 40 8"
    by (simp add: tb(5))
  moreover have "slice DM (d + 48) 8 = slice m1 (d + 48) 8"
    using lm tb(4) by (simp add: DM slice_store_frame)
  moreover have "slice m1 (d + 48) 8 = slice m (d + 48) 8"
    using lm by (simp add: m1_def slice_store_frame)
  ultimately show "slice (decoded_mem base s n) (data s + 48) 8 = slice (raw n) 40 8"
    by (simp add: DM_def d_def)
  show "data s + node_len n + length rest = length (mem s)"
    using tb(3) by (simp add: nl d_def m_def)
qed

lemma gai_step:
  assumes ok: "node_ok n" and dr: "drop (data s) (mem s) = write_node n @ rest"
    and sl: "case nxt s of None \<Rightarrow> True | Some slot \<Rightarrow> slot + 8 \<le> data s"
    and s1: "s1 = link_node base (s\<lparr>mem := decoded_mem base s n, data := data s + node_len n\<rparr>)
                   (data s + 8)"
  shows "gai_body base (length (mem s)) s = Inr s1"
    and "data s1 = data s + node_len n"
    and "nxt s1 = Some (data s + 48)"
    and "ai_list s1 = (case nxt s of None \<Rightarrow> base + (data s + 8) | Some slot \<Rightarrow> ai_list s)"
    and "length (mem s1) = length (mem s)"
    and "drop (data s + node_len n) (mem s1) = rest"
    and "node_image base (mem s1) (data s) n"
    and "take (data s) (mem s1) =
           take (data s) (case nxt s of None \<Rightarrow> mem s
                          | Some slot \<Rightarrow> store_ptr (mem s) slot (base + (data s + 8)))"
    and "slice (mem s1) (data s + 48) 8 = slice (raw n) 40 8"
    and "data s + node_len n + length rest = length (mem s)"
proof -
  define DM where "DM = decoded_mem base s n"
  note fr = decoded_mem_frame(1-4) [where base = base, OF ok dr, folded DM_def]
    decoded_mem_frame(5) [OF ok dr]
  note im = node_image_decoded [OF ok dr, of base, folded DM_def]
  have nl: "64 \<le> node_len n" by (rule node_len_ge)
  show "gai_body base (length (mem s)) s = Inr s1"
    unfolding s1 by (rule gai_body_ok [OF ok dr])
  show "data s1 = data s + node_len n"
    by (simp add: s1)
  show "nxt s1 = Some (data s + 48)"
    by (simp add: s1 link_node_def off_ai_next_def split: option.splits)
  show "ai_list s1 = (case nxt s of None \<Rightarrow> base + (data s + 8) | Some slot \<Rightarrow> ai_list s)"
    by (simp add: s1 link_node_def split: option.splits)
  show "data s + node_len n + length rest = length (mem s)"
    by (rule fr(5))
  show "length (mem s1) = length (mem s)"
    using sl fr(1,5) by (simp add: s1 link_node_def DM_def split: option.splits)
  have ms1: "mem s1 = (case nxt s of None \<Rightarrow> DM | Some slot \<Rightarrow> store_ptr DM slot (base + (data s + 8)))"
    by (simp add: s1 link_node_def DM_def split: option.splits)
  show "drop (data s + node_len n) (mem s1) = rest"
    using sl fr(1,3,5) by (simp add: ms1 drop_store_above split: option.splits)
  show "node_image base (mem s1) (data s) n"
    using sl fr(1,5) im by (simp add: ms1 node_image_store split: option.splits)
  show "take (data s) (mem s1) =
           take (data s) (case nxt s of None \<Rightarrow> mem s
                          | Some slot \<Rightarrow> store_ptr (mem s) slot (base + (data s + 8)))"
    using sl fr(1,2,5) by (simp add: ms1 take_store_above split: option.splits)
  show "slice (mem s1) (data s + 48) 8 = slice (raw n) 40 8"
    using sl fr(1,4,5) by (simp add: ms1 slice_store_frame split: option.splits)
qed

lemma gai_loop_unfold_step:
  assumes "gai_body base e s = Inr s1" and "data s < e"
  shows "gai_loop base e s = gai_loop base e s1"
  using assms by (subst gai_loop.simps) simp

lemma gai_loop_decodes:
  assumes "\<forall>n\<in>set ns. node_ok n"
    and "drop (data s) (mem s) = xgai_preexec_1 ns"
    and "ns \<noteq> [] \<Longrightarrow> load_ptr (raw (last ns)) off_ai_next = 0"
    and "case nxt s of None \<Rightarrow> True | Some slot \<Rightarrow> slot + 8 \<le> data s"
    and "base + length (mem s) < 2 ^ 64"
  shows "\<exists>s'. gai_loop base (length (mem s)) s = Some (Inr s') \<and>
           length (mem s') = length (mem s) \<and>
           (if ns = [] then s' = s
            else nodes_at base (mem s') (data s) ns \<and>
                 take (data s) (mem s') =
                   take (data s) (case nxt s of None \<Rightarrow> mem s
                                  | Some slot \<Rightarrow> store_ptr (mem s) slot (base + (data s + 8))) \<and>
                 ai_list s' = (case nxt s of None \<Rightarrow> base + (data s + 8)
                               | Some slot \<Rightarrow> ai_list s))"
  using assms
proof (induction ns arbitrary: s)
  case Nil
  then have "\<not> data s < length (mem s)" by simp
  then have "gai_loop base (length (mem s)) s = Some (Inr s)"
    by (subst gai_loop.simps) simp
  then show ?case by simp
next
  case (Cons n ns)
  define d where "d = data s"
  define s1 where "s1 = link_node base (s\<lparr>mem := decoded_mem base s n, data := d + node_len n\<rparr>)
                          (d + 8)"
  have ok: "node_ok n" using Cons.prems(1) by simp
  have dr: "drop (data s) (mem s) = write_node n @ xgai_preexec_1 ns"
    using Cons.prems(2) by simp
  note st = gai_step [OF ok dr Cons.prems(4) s1_def [unfolded d_def], folded d_def]
  have nl: "64 \<le> node_len n" by (rule node_len_ge)
  have "d < length (mem s)" using st(10) nl by simp
  from gai_loop_unfold_step [OF st(1) this [unfolded d_def]]
  have loop: "gai_loop base (length (mem s)) s = gai_loop base (length (mem s1)) s1"
    by (simp add: st(5))
  have "\<exists>s'. gai_loop base (length (mem s1)) s1 = Some (Inr s') \<and>
           length (mem s') = length (mem s1) \<and>
           (if ns = [] then s' = s1
            else nodes_at base (mem s') (data s1) ns \<and>
                 take (data s1) (mem s') =
                   take (data s1) (case nxt s1 of None \<Rightarrow> mem s1
                                   | Some slot \<Rightarrow> store_ptr (mem s1) slot (base + (data s1 + 8))) \<and>
                 ai_list s' = (case nxt s1 of None \<Rightarrow> base + (data s1 + 8)
                               | Some slot \<Rightarrow> ai_list s1))"
  proof (rule Cons.IH)
    show "\<forall>n\<in>set ns. node_ok n" using Cons.prems(1) by simp
    show "drop (data s1) (mem s1) = xgai_preexec_1 ns"
      using st(6) by (simp add: st(2))
    show "load_ptr (raw (last ns)) off_ai_next = 0" if "ns \<noteq> []"
      using Cons.prems(3) that by simp
    show "case nxt s1 of None \<Rightarrow> True | Some slot \<Rightarrow> slot + 8 \<le> data s1"
      using nl by (simp add: st(2,3))
    show "base + length (mem s1) < 2 ^ 64"
      using Cons.prems(5) by (simp add: st(5))
  qed
  then obtain s' where run: "gai_loop base (length (mem s1)) s1 = Some (Inr s')"
    and len: "length (mem s') = length (mem s1)"
    and rest: "if ns = [] then s' = s1
            else nodes_at base (mem s') (d + node_len n) ns \<and>
                 take (d + node_len n) (mem s') =
                   take (d + node_len n) (store_ptr (mem s1) (d + 48) (base + (d + node_len n + 8))) \<and>
                 ai_list s' = ai_list s1"
    by (auto simp add: st(2,3) split: if_splits)
  define M where "M = (if ns = [] then mem s1
                       else store_ptr (mem s1) (d + 48) (base + (d + node_len n + 8)))"
  have l1: "d + node_len n \<le> length (mem s1)"
    using st(10) by (simp add: st(5))
  have tk: "take (d + node_len n) (mem s') = take (d + node_len n) M"
    using rest by (auto simp: M_def)
  have imM: "node_image base M d n"
    using st(7) l1 nl by (simp add: M_def node_image_store)
  have im: "node_image base (mem s') d n"
    by (rule node_image_take [OF imM tk]) simp
  have nxt: "load_ptr (mem s') (d + 48) = (if ns = [] then 0 else base + (d + node_len n + 8))"
  proof (cases "ns = []")
    case True
    with rest have "mem s' = mem s1" by simp
    moreover have "load_ptr (raw n) off_ai_next = 0"
      using Cons.prems(3) True by simp
    ultimately show ?thesis
      using True st(9) by (simp add: load_def off_ai_next_def)
  next
    case False
    from False obtain n' ns' where "ns = n' # ns'" by (cases ns) auto
    with Cons.prems(1) have "64 \<le> length (xgai_preexec_1 ns)"
      using node_len_ge [of n'] by (simp add: length_write_node)
    with st(10) Cons.prems(5) have b: "base + (d + node_len n + 8) < 2 ^ 64"
      by simp
    have "slice (mem s') (d + 48) 8 = slice M (d + 48) 8"
      using nl by (intro slice_cong_take [OF tk]) simp
    also have "\<dots> = nat_le 8 (base + (d + node_len n + 8))"
      using False l1 nl by (simp add: M_def slice_store_same)
    finally show ?thesis
      using False b by (simp add: load_def le_nat_nat_le)
  qed
  have "take d (mem s') = take d (take (d + node_len n) (mem s'))"
    by simp
  also have "\<dots> = take d M"
    unfolding tk by simp
  also have "\<dots> = take d (mem s1)"
    using l1 nl by (simp add: M_def take_store_below)
  finally have tk': "take d (mem s') =
      take d (case nxt s of None \<Rightarrow> mem s
              | Some slot \<Rightarrow> store_ptr (mem s) slot (base + (d + 8)))"
    by (simp add: st(8))
  have al: "ai_list s' = (case nxt s of None \<Rightarrow> base + (d + 8) | Some slot \<Rightarrow> ai_list s)"
    using rest st(4) by (auto split: if_splits)
  have na: "nodes_at base (mem s') d (n # ns)"
    using im nxt rest by (auto split: if_splits)
  show ?case
    using loop run len st(5) na tk' al unfolding d_def by simp
qed

lemma ai_walk_null [simp]: "ai_walk fuel base m 0 = Some []"
  by (cases fuel) simp_all

lemma walk_nodes:
  assumes "nodes_at base m d ns" and "d + sum_list (map node_len ns) \<le> length m"
    and "length ns \<le> fuel"
  shows "ai_walk fuel base m (if ns = [] then 0 else base + (d + 8)) = Some (node_ptrs base d ns)"
  using assms
proof (induction ns arbitrary: d fuel)
  case Nil
  then show ?case by simp
next
  case (Cons n ns)
  from Cons.prems(3) obtain f where fuel: "fuel = Suc f" and f: "length ns \<le> f"
    by (cases fuel) auto
  have nl: "64 \<le> node_len n" by (rule node_len_ge)
  from Cons.prems(1) have nx: "load_ptr m (d + 48) = (if ns = [] then 0 else base + (d + node_len n + 8))"
    and na: "nodes_at base m (d + node_len n) ns"
    by simp_all
  have "ai_walk f base m (if ns = [] then 0 else base + ((d + node_len n) + 8))
          = Some (node_ptrs base (d + node_len n) ns)"
    using Cons.prems(2) by (intro Cons.IH [OF na _ f]) (simp add: add.assoc)
  then have "ai_walk f base m (load_ptr m (d + 48)) = Some (node_ptrs base (d + node_len n) ns)"
    by (simp add: nx)
  moreover have "\<not> length m < d + 8 + sizeof_addrinfo"
    using Cons.prems(2) nl by (simp add: sizeof_addrinfo_def)
  ultimately show ?case
    by (simp add: fuel node_offsets)
qed

lemma views_nodes:
  assumes "nodes_at base m d ns" and "\<forall>n\<in>set ns. node_ok n"
    and "d + sum_list (map node_len ns) \<le> length m" and "base + length m < 2 ^ 64"
  shows "map (view_parent base m) (node_ptrs base d ns) = map view_child ns"
  using assms
proof (induction ns arbitrary: d)
  case Nil
  then show ?case by simp
next
  case (Cons n ns)
  from Cons.prems(1) have im: "node_image base m d n"
    and na: "nodes_at base m (d + node_len n) ns"
    by simp_all
  have "view_parent base m (base + (d + 8)) = view_child n"
    using Cons.prems by (intro view_of_image [OF im]) simp_all
  moreover have "map (view_parent base m) (node_ptrs base (d + node_len n) ns) = map view_child ns"
    using Cons.prems by (intro Cons.IH [OF na]) (simp_all add: add.assoc)
  ultimately show ?case by simp
qed

text \<open>Decoding the whole output of the helper gives back the helper's list.\<close>

lemma decode_encode:
  assumes ok: "\<forall>n\<in>set ns. node_ok n"
    and last: "ns \<noteq> [] \<Longrightarrow> load_ptr (raw (last ns)) off_ai_next = 0"
    and b: "base + length (xgai_preexec_1 ns) < 2 ^ 64"
  shows "gai_result_list base (xgetaddrinfo_interruptible base (xgai_preexec_1 ns) 0 err)
           = Some (map view_child ns)"
proof -
  define out where "out = xgai_preexec_1 ns"
  define s where "s = \<lparr>mem = out, data = 0, ai_list = 0, nxt = None\<rparr>"
  have "\<exists>s'. gai_loop base (length (mem s)) s = Some (Inr s') \<and>
           length (mem s') = length (mem s) \<and>
           (if ns = [] then s' = s
            else nodes_at base (mem s') (data s) ns \<and>
                 take (data s) (mem s') =
                   take (data s) (case nxt s of None \<Rightarrow> mem s
                                  | Some slot \<Rightarrow> store_ptr (mem s) slot (base + (data s + 8))) \<and>
                 ai_list s' = (case nxt s of None \<Rightarrow> base + (data s + 8)
                               | Some slot \<Rightarrow> ai_list s))"
    using ok last b by (intro gai_loop_decodes) (simp_all add: s_def out_def)
  then obtain s' where run: "gai_loop base (length out) s = Some (Inr s')"
    and len: "length (mem s') = length out"
    and res: "if ns = [] then s' = s
              else nodes_at base (mem s') 0 ns \<and> ai_list s' = base + 8"
    by (auto simp: s_def split: if_splits)
  have x: "xgetaddrinfo_interruptible base out 0 err = Some (Inr s')"
    using run by (simp add: xgetaddrinfo_interruptible_def child_status_success_p_def
        WIFEXITED_def WTERMSIG_def WEXITSTATUS_def s_def)
  have tot: "sum_list (map node_len ns) = length out"
    using ok by (simp add: out_def length_xgai_preexec_1)
  have na: "nodes_at base (mem s') 0 ns"
    using res by (cases "ns = []") simp_all
  have al: "ai_list s' = (if ns = [] then 0 else base + (0 + 8))"
    using res by (cases "ns = []") (simp_all add: s_def)
  have "length ns \<le> length out"
  proof -
    have "length ns \<le> sum_list (map node_len ns)"
    proof (induction ns)
      case Nil
      show ?case by simp
    next
      case (Cons a ns)
      with node_len_ge [of a] show ?case by simp
    qed
    then show ?thesis by (simp add: tot)
  qed
  then have w: "ai_walk (length (mem s')) base (mem s') (ai_list s') = Some (node_ptrs base 0 ns)"
    unfolding al len by (intro walk_nodes [OF na]) (simp_all add: tot len)
  have v: "map (view_parent base (mem s')) (node_ptrs base 0 ns) = map view_child ns"
    using ok b by (intro views_nodes [OF na]) (simp_all add: tot len out_def)
  show ?thesis
    unfolding out_def [symmetric] x by (simp add: gai_result_list_def w v)
qed

lemma node_boundaries_Nil: "node_boundaries [] = [0]"
  by (simp add: node_boundaries_def)

lemma node_boundaries_Cons:
  "node_boundaries (n # ns) = 0 # map (\<lambda>b. length (write_node n) + b) (node_boundaries ns)"
proof -
  have "[0..<Suc (Suc (length ns))] = 0 # map Suc [0..<Suc (length ns)]"
    by (simp only: map_Suc_upt upt_conv_Cons [of 0 "Suc (Suc (length ns))"])
  then show ?thesis
    by (simp add: node_boundaries_def comp_def del: upt_Suc)
qed

lemma gai_loop_truncated:
  assumes "\<forall>n\<in>set ns. node_ok n"
    and "drop (data s) (mem s) = take k (xgai_preexec_1 ns)"
    and "k \<le> length (xgai_preexec_1 ns)"
    and "k \<notin> set (node_boundaries ns)"
    and "case nxt s of None \<Rightarrow> True | Some slot \<Rightarrow> slot + 8 \<le> data s"
  shows "gai_loop base (length (mem s)) s = Some (Inl (Die ECOMM ''truncated data''))"
  using assms
proof (induction ns arbitrary: s k)
  case Nil
  then show ?case by (simp add: node_boundaries_Nil)
next
  case (Cons n ns)
  have ok: "node_ok n" using Cons.prems(1) by simp
  have nl: "length (write_node n) = node_len n"
    by (rule length_write_node [OF ok])
  have k0: "0 < k" and kb: "\<forall>b\<in>set (node_boundaries ns). k \<noteq> node_len n + b"
    using Cons.prems(4) by (auto simp: node_boundaries_Cons nl)
  show ?case
  proof (cases "k < node_len n")
    case True
    then have dr: "drop (data s) (mem s) = take k (write_node n)"
      using Cons.prems(2) by (simp add: nl)
    have "length (drop (data s) (mem s)) = k"
      unfolding dr using True by (simp add: nl)
    with k0 have lt: "data s < length (mem s)" by simp
    have "gai_body base (length (mem s)) s = Inl (Die ECOMM ''truncated data'')"
      by (rule gai_body_truncated [OF ok dr k0 True])
    with lt show ?thesis
      by (subst gai_loop.simps) simp
  next
    case False
    define s1 where "s1 = link_node base (s\<lparr>mem := decoded_mem base s n, data := data s + node_len n\<rparr>)
                            (data s + 8)"
    have dr: "drop (data s) (mem s) = write_node n @ take (k - node_len n) (xgai_preexec_1 ns)"
      using Cons.prems(2) False by (simp add: nl)
    note st = gai_step [OF ok dr Cons.prems(5) s1_def]
    have "data s < length (mem s)"
      using st(10) node_len_ge [of n] by simp
    from gai_loop_unfold_step [OF st(1) this]
    have "gai_loop base (length (mem s)) s = gai_loop base (length (mem s1)) s1"
      by (simp add: st(5))
    also have "\<dots> = Some (Inl (Die ECOMM ''truncated data''))"
    proof (rule Cons.IH)
      show "\<forall>n\<in>set ns. node_ok n" using Cons.prems(1) by simp
      show "drop (data s1) (mem s1) = take (k - node_len n) (xgai_preexec_1 ns)"
        using st(6) by (simp add: st(2))
      show "k - node_len n \<le> length (xgai_preexec_1 ns)"
        using Cons.prems(3) by (simp add: nl)
      show "k - node_len n \<notin> set (node_boundaries ns)"
        using kb False by auto
      show "case nxt s1 of None \<Rightarrow> True | Some slot \<Rightarrow> slot + 8 \<le> data s1"
        using node_len_ge [of n] by (simp add: st(2,3))
    qed
    finally show ?thesis .
  qed
qed

section \<open>Evaluating the model on the sample nodes\<close>

lemmas layout_defs = sizeof_size_t_def sizeof_addrinfo_def off_ai_flags_def off_ai_family_def
  off_ai_socktype_def off_ai_protocol_def off_ai_addrlen_def off_ai_addr_def
  off_ai_canonname_def off_ai_next_def

lemmas decode_defs = gai_body_def link_node_def decode_blob_def load_def slice_def store_def
  Let_def nat_le_numeral

lemmas sample_defs = sample_first_def sample_second_def mk_addrinfo_def write_node_def
  write_blob_def strlen_def

lemma sample_first_ok: "node_ok sample_first"
  by (simp add: node_ok_def sample_defs layout_defs load_def slice_def nat_le_numeral)

lemma sample_second_ok: "node_ok sample_second"
  by (simp add: node_ok_def sample_defs layout_defs load_def slice_def nat_le_numeral)

lemma sample_lengths:
  "length (write_node sample_first) = 92" "length (write_node sample_second) = 80"
  by (simp_all add: sample_defs layout_defs load_def slice_def nat_le_numeral)

lemma sample_views:
  "view_child sample_first =
     \<lparr>v_flags = 2, v_family = 2, v_socktype = 1, v_protocol = 6,
      v_addr = [2, 0, 0, 80, 10, 0, 0, 1, 0, 0, 0, 0, 0, 0, 0, 0],
      v_canonname = Some [97, 46, 98]\<rparr>"
  "view_child sample_second =
     \<lparr>v_flags = 0, v_family = 2, v_socktype = 1, v_protocol = 6,
      v_addr = [2, 0, 0, 80, 10, 0, 0, 2, 0, 0, 0, 0, 0, 0, 0, 0],
      v_canonname = None\<rparr>"
  by (simp_all add: view_child_def sample_defs layout_defs load_def slice_def nat_le_numeral)

lemma sample_last: "load_ptr (raw sample_second) off_ai_next = 0"
  by (simp add: sample_defs layout_defs load_def slice_def nat_le_numeral)

section \<open>Facts about address records\<close>

lemmas addr_defs = make_addr_unix_filesystem_def make_addr_unix_abstract_def make_addr_unix_abstract_s_def
  describe_addr_def printf_prec_s_def SATADD_def strlen_s_def NUL_def socklen_t_def SOCKLEN_MAX_def
  linux_lp64_def linux_ilp32_def other_ilp32_def offsetof_sun_path_def INT_MAX_def AF_UNIX_def AF_INET_def AF_INET6_def
  EINVAL_def ENOSYS_def Let_def

lemma strlen_s_terminated: "NUL \<notin> set s \<Longrightarrow> strlen_s (s @ [NUL]) = length s"
  by (induction s) (auto simp: strlen_s_def)

text \<open>
  What the constructors do test.  On a platform whose sizes hold the fixed part of the
  record, a name whose length overflows the computation of the allocation size in
  \<^verbatim>\<open>size_t\<close> makes each constructor die with \<^verbatim>\<open>EINVAL\<close> before it allocates; on a
  platform that is not Linux \<^verbatim>\<open>make_addr_unix_abstract\<close> dies with \<^verbatim>\<open>ENOSYS\<close>; and without
  such an overflow the record holds the whole name, and its \<^verbatim>\<open>size\<close> the length of the
  socket address as far as it fits \<^verbatim>\<open>socklen_t\<close>.
\<close>

lemma constructors_size_t_overflow:
  assumes "offsetof_addr P + offsetof_sun_path + 1 \<le> SIZE_MAX P"
  shows "(length filename < SIZE_MAX P \<and>
            SIZE_MAX P < offsetof_addr P + offsetof_sun_path + (length filename + 1)
          \<longrightarrow> make_addr_unix_filesystem P filename
                = ([], Inl (Die EINVAL ''socket name too long'')))
       \<and> (linux P \<and> SIZE_MAX P < offsetof_addr P + offsetof_sun_path + 1 + nr
          \<longrightarrow> make_addr_unix_abstract P bytes nr
                = ([], Inl (Die EINVAL ''socket name too long'')))
       \<and> (SIZE_MAX P < offsetof_addr P + ai_addrlen
          \<longrightarrow> addrinfo2addr P ai_addrlen ai_addr = ([], Inl (Die EINVAL ''address too long'')))
       \<and> (\<not> linux P
          \<longrightarrow> make_addr_unix_abstract P bytes nr
                = ([], Inl (Die ENOSYS ''this system does not support abstract AF_UNIX'')))
       \<and> (NUL \<notin> set filename \<and>
            offsetof_addr P + offsetof_sun_path + (length filename + 1) \<le> SIZE_MAX P
          \<longrightarrow> make_addr_unix_filesystem P filename
                = ([offsetof_addr P + offsetof_sun_path + (length filename + 1)],
                   Inr \<lparr>size = socklen_t (offsetof_sun_path + length filename),
                        sa_family = AF_UNIX, sa_data = filename @ [NUL]\<rparr>))
       \<and> (linux P \<and> nr \<le> length bytes \<and>
            offsetof_addr P + offsetof_sun_path + 1 + nr \<le> SIZE_MAX P
          \<longrightarrow> make_addr_unix_abstract P bytes nr
                = ([offsetof_addr P + offsetof_sun_path + 1 + nr],
                   Inr \<lparr>size = socklen_t (offsetof_sun_path + 1 + nr), sa_family = AF_UNIX,
                        sa_data = NUL # take nr bytes\<rparr>))
       \<and> (offsetof_addr P + ai_addrlen \<le> SIZE_MAX P
          \<longrightarrow> addrinfo2addr P ai_addrlen ai_addr
                = ([offsetof_addr P + ai_addrlen],
                   Inr \<lparr>size = socklen_t ai_addrlen,
                        sa_family = le_nat (map of_char (take 2 (take ai_addrlen ai_addr))),
                        sa_data = drop 2 (take ai_addrlen ai_addr)\<rparr>))"
proof (intro conjI impI)
  assume "length filename < SIZE_MAX P \<and>
            SIZE_MAX P < offsetof_addr P + offsetof_sun_path + (length filename + 1)"
  then show "make_addr_unix_filesystem P filename = ([], Inl (Die EINVAL ''socket name too long''))"
    by (auto simp: make_addr_unix_filesystem_def SATADD_def Let_def)
next
  assume "linux P \<and> SIZE_MAX P < offsetof_addr P + offsetof_sun_path + 1 + nr"
  then show "make_addr_unix_abstract P bytes nr = ([], Inl (Die EINVAL ''socket name too long''))"
    using assms by (auto simp: make_addr_unix_abstract_def SATADD_def Let_def)
next
  assume "SIZE_MAX P < offsetof_addr P + ai_addrlen"
  then show "addrinfo2addr P ai_addrlen ai_addr = ([], Inl (Die EINVAL ''address too long''))"
    using assms by (auto simp: addrinfo2addr_def SATADD_def Let_def)
next
  assume "\<not> linux P"
  then show "make_addr_unix_abstract P bytes nr
               = ([], Inl (Die ENOSYS ''this system does not support abstract AF_UNIX''))"
    by (simp add: make_addr_unix_abstract_def)
next
  assume a: "NUL \<notin> set filename \<and>
            offsetof_addr P + offsetof_sun_path + (length filename + 1) \<le> SIZE_MAX P"
  then have "(length filename + 1) mod (SIZE_MAX P + 1) = length filename + 1"
    by simp
  with a show "make_addr_unix_filesystem P filename
                = ([offsetof_addr P + offsetof_sun_path + (length filename + 1)],
                   Inr \<lparr>size = socklen_t (offsetof_sun_path + length filename),
                        sa_family = AF_UNIX, sa_data = filename @ [NUL]\<rparr>)"
    by (auto simp: make_addr_unix_filesystem_def SATADD_def Let_def strlen_s_terminated)
next
  assume "linux P \<and> nr \<le> length bytes \<and>
            offsetof_addr P + offsetof_sun_path + 1 + nr \<le> SIZE_MAX P"
  then show "make_addr_unix_abstract P bytes nr
                = ([offsetof_addr P + offsetof_sun_path + 1 + nr],
                   Inr \<lparr>size = socklen_t (offsetof_sun_path + 1 + nr), sa_family = AF_UNIX,
                        sa_data = NUL # take nr bytes\<rparr>)"
    by (auto simp: make_addr_unix_abstract_def SATADD_def Let_def)
next
  assume "offsetof_addr P + ai_addrlen \<le> SIZE_MAX P"
  then show "addrinfo2addr P ai_addrlen ai_addr
                = ([offsetof_addr P + ai_addrlen],
                   Inr \<lparr>size = socklen_t ai_addrlen,
                        sa_family = le_nat (map of_char (take 2 (take ai_addrlen ai_addr))),
                        sa_data = drop 2 (take ai_addrlen ai_addr)\<rparr>)"
    by (auto simp: addrinfo2addr_def SATADD_def Let_def)
qed

section \<open>Facts about the socket layer\<close>

lemmas io_defs = ret_def bnd_def die_def die_errno_def unwind_def cleanup_allocate_def
  cleanup_commit_close_fd_def kernel_open_def merge_O_CLOEXEC_into_fd_flags_def
  assert_cloexec_def is_open_def

lemma two_slots:
  "((xs @ [None]) @ [None :: int option])[length xs := Some a, Suc (length xs) := Some b]
     = xs @ [Some a, Some b]"
  by (simp add: list_update_append)

lemma xsocketpair_unfolded:
  "xsocketpair P r fd m0 m1 p =
     (let c = SOCK_CLOEXEC_defined P;
          slots = cleanups p @ [Some (fst fd), Some (snd fd)];
          opened = (snd fd, c) # (fst fd, c) # fds p
      in if fst r < 0 then die_errno (snd r) ''socketpair'' (p\<lparr>cleanups := cleanups p @ [None, None]\<rparr>)
         else if c then (Inr fd, p\<lparr>fds := opened, cleanups := slots\<rparr>)
         else (case m0 of
                 Some e \<Rightarrow> die_errno e ''fcntl'' (p\<lparr>fds := opened, cleanups := slots\<rparr>)
               | None \<Rightarrow>
                  (case m1 of
                     Some e \<Rightarrow> die_errno e ''fcntl''
                       (p\<lparr>fds := map (\<lambda>(f, c). if f = fst fd then (f, True) else (f, c)) opened,
                          cleanups := slots\<rparr>)
                   | None \<Rightarrow>
                       (Inr fd,
                        p\<lparr>fds := map (\<lambda>(f, c). if f = snd fd then (f, True) else (f, c))
                                   (map (\<lambda>(f, c). if f = fst fd then (f, True) else (f, c)) opened),
                           cleanups := slots\<rparr>))))"
  by (auto simp: xsocketpair_def io_defs Let_def list_update_append split: option.splits)

lemma xsocketpairnc_unfolded:
  "xsocketpairnc P r sv m0 m1 p =
     (let c = SOCK_CLOEXEC_defined P;
          opened = (snd sv, c) # (fst sv, c) # fds p
      in if fst r < 0 then die_errno (snd r) ''socketpair'' p
         else if c then (Inr sv, p\<lparr>fds := opened\<rparr>)
         else (case m0 of
                 Some e \<Rightarrow> die_errno e ''fcntl'' (p\<lparr>fds := opened\<rparr>)
               | None \<Rightarrow>
                  (case m1 of
                     Some e \<Rightarrow> die_errno e ''fcntl''
                       (p\<lparr>fds := map (\<lambda>(f, c). if f = fst sv then (f, True) else (f, c)) opened\<rparr>)
                   | None \<Rightarrow>
                       (Inr sv,
                        p\<lparr>fds := map (\<lambda>(f, c). if f = snd sv then (f, True) else (f, c))
                                   (map (\<lambda>(f, c). if f = fst sv then (f, True) else (f, c)) opened)\<rparr>))))"
  by (auto simp: xsocketpairnc_def io_defs Let_def split: option.splits)



section \<open>Facts about the ring buffer\<close>

lemmas ringbuf_defs = ringbuf_new_def ringbuf_capacity_def ringbuf_size_def ringbuf_room_def
  ringbuf_readable_iov_def ringbuf_writable_iov_def ringbuf_note_added_def
  ringbuf_note_removed_def ringbuf_copy_in_def ringbuf_copy_out_def poke_def slice_def
  rb_step_def Let_def

lemma length_poke [simp]: "off + length bs \<le> length st \<Longrightarrow> length (poke st off bs) = length st"
  by (simp add: poke_def)

lemma slice_poke_same:
  "off + length bs \<le> length st \<Longrightarrow> slice (poke st off bs) off (length bs) = bs"
  by (simp add: poke_def slice_def)

lemma slice_poke_above:
  "off + length bs \<le> a \<Longrightarrow> off + length bs \<le> length st \<Longrightarrow>
     slice (poke st off bs) a k = slice st a k"
  by (simp add: poke_def slice_def)

lemma rb_step_balanced:
  assumes "rb_held rb \<le> rb_capacity rb" and "within_capacity (rb_capacity rb) (rb_held rb) (op # ops)"
  shows "\<exists>rb'. rb_step rb op = Inr rb' \<and> rb_capacity rb' = rb_capacity rb \<and>
           rb_held rb' \<le> rb_capacity rb \<and>
           within_capacity (rb_capacity rb) (rb_held rb') ops"
  using assms
  by (cases op)
     (auto simp: rb_step_def ringbuf_copy_in_def ringbuf_copy_out_def ringbuf_note_added_def
        ringbuf_note_removed_def ringbuf_room_def ringbuf_size_def ringbuf_capacity_def)

lemma rb_trace_balanced:
  assumes "rb_held rb \<le> rb_capacity rb" and "within_capacity (rb_capacity rb) (rb_held rb) ops"
  shows "length (rb_trace rb ops) = length ops \<and>
         (\<forall>x\<in>set (rb_trace rb ops). rb_balanced (rb_capacity rb) x)"
  using assms
proof (induction ops arbitrary: rb)
  case Nil
  then show ?case by simp
next
  case (Cons op ops)
  from rb_step_balanced [OF Cons.prems] obtain rb' where
    s: "rb_step rb op = Inr rb'" and c: "rb_capacity rb' = rb_capacity rb"
    and h: "rb_held rb' \<le> rb_capacity rb"
    and w: "within_capacity (rb_capacity rb) (rb_held rb') ops"
    by blast
  from Cons.IH [of rb'] c h w
  have "length (rb_trace rb' ops) = length ops"
    and "\<forall>x\<in>set (rb_trace rb' ops). rb_balanced (rb_capacity rb) x"
    by simp_all
  moreover have "rb_balanced (rb_capacity rb) (Inr rb')"
    using c h by (simp add: rb_balanced_def ringbuf_capacity_def ringbuf_size_def ringbuf_room_def)
  ultimately show ?case
    by (simp add: s)
qed

lemma wrap_round_trip:
  assumes len: "length st = cap" and w: "w \<le> cap" and n: "length bs \<le> cap"
    and first: "first = min (length bs) (cap - w)"
    and st2: "st2 = poke (poke st w (take first bs)) 0 (drop first bs)"
  shows "slice st2 w first @ slice st2 0 (length bs - first) = bs"
    and "length st2 = cap"
proof -
  define st1 where "st1 = poke st w (take first bs)"
  have f: "first \<le> length bs" "w + first \<le> cap"
    using w by (simp_all add: first)
  have lt: "length (take first bs) = first" "length (drop first bs) = length bs - first"
    using f by simp_all
  have l1: "length st1 = cap"
    using f len by (simp add: st1_def lt)
  have below: "length bs - first \<le> w \<or> first = 0 \<and> length bs = 0 \<or> length bs - first = 0"
    using n w by (auto simp: first min_def)
  have fit: "0 + length (drop first bs) \<le> length st1"
    using n l1 by (simp add: lt)
  show "length st2 = cap"
    unfolding st2 st1_def [symmetric] using fit l1 by simp
  have a: "slice st1 w first = take first bs"
    using slice_poke_same [of w "take first bs" st] f len by (simp add: st1_def lt)
  have b: "slice st2 0 (length bs - first) = drop first bs"
    using slice_poke_same [of 0 "drop first bs" st1] fit
    by (simp add: st2 st1_def [symmetric] lt)
  have c: "slice st2 w first = take first bs"
  proof (cases "length bs - first \<le> w")
    case True
    then have "slice (poke st1 0 (drop first bs)) w first = slice st1 w first"
      using fit by (intro slice_poke_above) (simp_all add: lt)
    then show ?thesis by (simp add: st2 st1_def [symmetric] a)
  next
    case False
    with below have "first = 0" by auto
    then show ?thesis by (simp add: slice_def)
  qed
  show "slice st2 w first @ slice st2 0 (length bs - first) = bs"
    by (simp add: b c)
qed

section \<open>The claims about the resolver's decoder\<close>

text \<open>
  C1, as the specification states it, fails.  The output of the helper for the two
  sample nodes, cut after the first node (at byte 92 of 172, before the final blob),
  is decoded without any failure: the call returns the first node alone, and the
  \<^verbatim>\<open>ai_next\<close> of that node still holds the address of the second node in the helper.
\<close>

theorem C1_truncation_counterexample:
  "node_ok sample_first \<and> node_ok sample_second
   \<and> length (xgai_preexec_1 [sample_first, sample_second]) = 172
   \<and> map_option (map_sum id (\<lambda>s. (ai_list s, data s, load_ptr (mem s) (ai_list s - 4096 + off_ai_next))))
         (xgetaddrinfo_interruptible 4096 (take 92 (xgai_preexec_1 [sample_first, sample_second])) 0 [])
       = Some (Inr (4104, 92, 24640))"
proof -
  let ?s0 = "\<lparr>mem = write_node sample_first, data = 0, ai_list = 0, nxt = None\<rparr>"
  let ?s1 = "\<lparr>mem = store_ptr (store_ptr (write_node sample_first) 32 4160) 40 4184,
              data = 92, ai_list = 4104, nxt = Some 48\<rparr>"
  have t: "take 92 (xgai_preexec_1 [sample_first, sample_second]) = write_node sample_first"
    by (simp add: sample_lengths)
  have b: "gai_body 4096 92 ?s0 = Inr ?s1"
    by (simp add: decode_defs sample_defs layout_defs)
  have "gai_loop 4096 92 ?s0 = gai_loop 4096 92 ?s1"
    by (rule gai_loop_unfold_step [OF b]) simp
  also have "\<dots> = Some (Inr ?s1)"
    by (subst gai_loop.simps) simp
  finally have r: "xgetaddrinfo_interruptible 4096 (write_node sample_first) 0 [] = Some (Inr ?s1)"
    by (simp add: xgetaddrinfo_interruptible_def child_status_success_p_def WIFEXITED_def
        WTERMSIG_def WEXITSTATUS_def sample_lengths)
  have n: "load_ptr (mem ?s1) (ai_list ?s1 - 4096 + off_ai_next) = 24640"
    by (simp add: decode_defs sample_defs layout_defs)
  show ?thesis
    using sample_first_ok sample_second_ok n by (simp add: t r sample_lengths)
qed

text \<open>
  C1, amended.  The wire format has no outer framing: the end of the stream is the end
  of the list.  What the decoder does detect is a cut inside a node: for the output of
  the helper for any list of nodes and any cut that is not at the end of a whole node
  (nor at 0), decoding the cut output dies with \<^verbatim>\<open>ECOMM\<close>, "truncated data".
\<close>

theorem C1_truncation_inside_a_node:
  assumes "\<forall>n\<in>set ns. node_ok n"
    and "k \<le> length (xgai_preexec_1 ns)"
    and "k \<notin> set (node_boundaries ns)"
  shows "xgetaddrinfo_interruptible base (take k (xgai_preexec_1 ns)) 0 err
           = Some (Inl (Die ECOMM ''truncated data''))"
proof -
  let ?s = "\<lparr>mem = take k (xgai_preexec_1 ns), data = 0, ai_list = 0, nxt = None\<rparr>"
  have "gai_loop base (length (mem ?s)) ?s = Some (Inl (Die ECOMM ''truncated data''))"
    using assms by (intro gai_loop_truncated [where ns = ns and k = k]) simp_all
  then show ?thesis
    by (simp add: xgetaddrinfo_interruptible_def child_status_success_p_def WIFEXITED_def
        WTERMSIG_def WEXITSTATUS_def)
qed

theorem C1_truncation_inside_a_node_witness:
  "node_ok sample_first \<and> node_ok sample_second
   \<and> 100 \<le> length (xgai_preexec_1 [sample_first, sample_second])
   \<and> node_boundaries [sample_first, sample_second] = [0, 92, 172]
   \<and> 100 \<notin> set (node_boundaries [sample_first, sample_second])
   \<and> xgetaddrinfo_interruptible 4096 (take 100 (xgai_preexec_1 [sample_first, sample_second])) 0 []
       = Some (Inl (Die ECOMM ''truncated data''))"
proof -
  have ok: "\<forall>n\<in>set [sample_first, sample_second]. node_ok n"
    using sample_first_ok sample_second_ok by simp
  have l: "100 \<le> length (xgai_preexec_1 [sample_first, sample_second])"
    by (simp add: sample_lengths)
  have nb: "node_boundaries [sample_first, sample_second] = [0, 92, 172]"
    by (simp add: node_boundaries_Cons node_boundaries_Nil sample_lengths)
  then have b: "100 \<notin> set (node_boundaries [sample_first, sample_second])"
    by simp
  from C1_truncation_inside_a_node [OF ok l b, of 4096 "[]"] l nb b
  show ?thesis using sample_first_ok sample_second_ok by simp
qed

text \<open>
  C3.  Decoding the helper's output for two nodes, one with a canonical name and one
  without, returns a list of exactly these two nodes in the order of the output: each
  has the integer fields and the address bytes that were encoded, and a canonical name
  exactly when its \<^verbatim>\<open>ai_canonname\<close> was not \<^verbatim>\<open>NULL\<close> in the helper (the string of the
  third blob).  The theorem holds for any two well-formed nodes; the hypothesis on the
  names is the one of the claim.  The other hypotheses say that the list has exactly
  these two nodes, so the \<^verbatim>\<open>ai_next\<close> of the second one is \<^verbatim>\<open>NULL\<close> in the helper (its
  loop writes nodes until it finds that), and that the parent's buffer lies below
  \<open>2\<^sup>6\<^sup>4\<close>, the end of the address space.
\<close>

theorem C3_two_nodes_decoded_in_order:
  assumes "node_ok n1" and "node_ok n2"
    and "has_canon n1 \<noteq> has_canon n2"
    and "load_ptr (raw n2) off_ai_next = 0"
    and "base + length (xgai_preexec_1 [n1, n2]) < 2 ^ 64"
  shows "gai_result_list base (xgetaddrinfo_interruptible base (xgai_preexec_1 [n1, n2]) 0 err)
           = Some [view_child n1, view_child n2]
         \<and> (v_canonname (view_child n1) \<noteq> None \<longleftrightarrow> has_canon n1)
         \<and> (v_canonname (view_child n2) \<noteq> None \<longleftrightarrow> has_canon n2)"
proof -
  have "gai_result_list base (xgetaddrinfo_interruptible base (xgai_preexec_1 [n1, n2]) 0 err)
           = Some (map view_child [n1, n2])"
    using assms(1,2,4,5) by (intro decode_encode) simp_all
  then show ?thesis
    by (simp add: view_child_def has_canon_def)
qed

theorem C3_two_nodes_decoded_in_order_witness:
  "node_ok sample_first \<and> node_ok sample_second
   \<and> has_canon sample_first \<and> \<not> has_canon sample_second
   \<and> load_ptr (raw sample_second) off_ai_next = 0
   \<and> 4096 + length (xgai_preexec_1 [sample_first, sample_second]) < (2 :: nat) ^ 64
   \<and> gai_result_list 4096
         (xgetaddrinfo_interruptible 4096 (xgai_preexec_1 [sample_first, sample_second]) 0 [])
       = Some [\<lparr>v_flags = 2, v_family = 2, v_socktype = 1, v_protocol = 6,
                 v_addr = [2, 0, 0, 80, 10, 0, 0, 1, 0, 0, 0, 0, 0, 0, 0, 0],
                 v_canonname = Some [97, 46, 98]\<rparr>,
                \<lparr>v_flags = 0, v_family = 2, v_socktype = 1, v_protocol = 6,
                 v_addr = [2, 0, 0, 80, 10, 0, 0, 2, 0, 0, 0, 0, 0, 0, 0, 0],
                 v_canonname = None\<rparr>]"
proof -
  have c: "has_canon sample_first" "\<not> has_canon sample_second"
    by (simp_all add: has_canon_def sample_defs layout_defs load_def slice_def nat_le_numeral)
  have l: "4096 + length (xgai_preexec_1 [sample_first, sample_second]) < (2 :: nat) ^ 64"
    by (simp add: sample_lengths)
  from C3_two_nodes_decoded_in_order [OF sample_first_ok sample_second_ok _ sample_last l, of "[]"] c
  show ?thesis
    using sample_first_ok sample_second_ok sample_last l by (simp add: sample_views)
qed

text \<open>
  C4, as the specification states it, fails in one place: the message for a helper
  killed by a signal.  For signal 15 the code's message is
  "getaddrinfo failed with signal 15", not "resolution failed with signal 15".
\<close>

theorem C4_signal_message_counterexample:
  "xgetaddrinfo_interruptible 4096 [] 15 []
     = Some (Inl (Die ENOENT ''getaddrinfo failed with signal 15''))
   \<and> ''getaddrinfo failed with signal 15'' \<noteq> ''resolution failed with signal 15''"
  by (simp add: xgetaddrinfo_interruptible_def child_status_success_p_def WIFEXITED_def
      WIFSIGNALED_def WTERMSIG_def WEXITSTATUS_def dec.simps digit_def)

text \<open>
  C4, amended.  When the helper did not succeed, the call dies with \<^verbatim>\<open>ENOENT\<close> and:
  the captured standard-error text (as \<^verbatim>\<open>massage_output_buf\<close> returns it) when the
  helper exited with a status, which is a status code from 1 to 255 here;
  "getaddrinfo failed with signal N" when signal N killed it (with or without a core
  dump); "unknown status from resolver process" for any other status.
\<close>

theorem C4_helper_failure_messages:
  "(0 < code \<and> code < 256 \<longrightarrow>
      xgetaddrinfo_interruptible base out (256 * code) err = Some (Inl (Die ENOENT err)))
   \<and> (0 < sig \<and> sig < 127 \<and> core < 2 \<longrightarrow>
      xgetaddrinfo_interruptible base out (sig + 128 * core) err
        = Some (Inl (Die ENOENT (''getaddrinfo failed with signal '' @ dec sig))))
   \<and> (\<not> child_status_success_p status \<longrightarrow>
      xgetaddrinfo_interruptible base out status err =
        Some (Inl (Die ENOENT
          (if WIFEXITED status then err
           else if WIFSIGNALED status
             then ''getaddrinfo failed with signal '' @ dec (WTERMSIG status)
           else ''unknown status from resolver process''))))"
proof (intro conjI impI)
  assume "0 < code \<and> code < 256"
  then show "xgetaddrinfo_interruptible base out (256 * code) err = Some (Inl (Die ENOENT err))"
    by (simp add: xgetaddrinfo_interruptible_def child_status_success_p_def WIFEXITED_def
        WTERMSIG_def WEXITSTATUS_def)
next
  assume a: "0 < sig \<and> sig < 127 \<and> core < 2"
  then have "(sig + 128 * core) mod 128 = sig"
    by simp
  with a show "xgetaddrinfo_interruptible base out (sig + 128 * core) err
        = Some (Inl (Die ENOENT (''getaddrinfo failed with signal '' @ dec sig)))"
    by (simp add: xgetaddrinfo_interruptible_def child_status_success_p_def WIFEXITED_def
        WIFSIGNALED_def WTERMSIG_def)
next
  assume "\<not> child_status_success_p status"
  then show "xgetaddrinfo_interruptible base out status err =
        Some (Inl (Die ENOENT
          (if WIFEXITED status then err
           else if WIFSIGNALED status
             then ''getaddrinfo failed with signal '' @ dec (WTERMSIG status)
           else ''unknown status from resolver process'')))"
    by (simp add: xgetaddrinfo_interruptible_def)
qed

theorem C4_helper_failure_messages_witness:
  "xgetaddrinfo_interruptible 4096 [] (256 * 1) ''no such host'' = Some (Inl (Die ENOENT ''no such host''))
   \<and> xgetaddrinfo_interruptible 4096 [] (15 + 128 * 0) []
       = Some (Inl (Die ENOENT ''getaddrinfo failed with signal 15''))
   \<and> \<not> child_status_success_p 4991
   \<and> \<not> WIFEXITED 4991 \<and> \<not> WIFSIGNALED 4991
   \<and> xgetaddrinfo_interruptible 4096 [] 4991 []
       = Some (Inl (Die ENOENT ''unknown status from resolver process''))"
proof -
  have d: "dec 15 = ''15''"
    by (simp add: dec.simps digit_def)
  have s: "\<not> child_status_success_p 4991" "\<not> WIFEXITED 4991" "\<not> WIFSIGNALED 4991"
    by (simp_all add: child_status_success_p_def WIFEXITED_def WIFSIGNALED_def WTERMSIG_def)
  from C4_helper_failure_messages [of 1 4096 "[]" "''no such host''" 15 0 4991]
    C4_helper_failure_messages [of 1 4096 "[]" "[]" 15 0 4991] s
  show ?thesis by (simp add: d)
qed

text \<open>
  C10.  The decoding loop ends on every buffer.  A successful \<^verbatim>\<open>decode_blob\<close> moves
  the cursor forward by at least the size of the length prefix and never past
  \<^verbatim>\<open>data_end\<close>; a pass of the loop body that does not die therefore makes the distance
  \<^verbatim>\<open>data_end - data\<close> strictly smaller; and the loop returns (a failure or the list) from
  every state.
\<close>

theorem C10_decode_loop_terminates:
  "(\<forall>blob sz d'. decode_blob m d e = Inr (blob, sz, d') \<longrightarrow>
       d + sizeof_size_t \<le> d' \<and> d' \<le> e)
   \<and> (\<forall>s'. gai_body base e s = Inr s' \<longrightarrow> e - data s' < e - data s)
   \<and> (\<exists>r. gai_loop base e s = Some r)"
proof (intro conjI allI impI)
  fix blob sz d'
  assume "decode_blob m d e = Inr (blob, sz, d')"
  then show "d + sizeof_size_t \<le> d'" and "d' \<le> e"
    by (auto dest: decode_blob_progress)
next
  fix s'
  assume "gai_body base e s = Inr s'"
  from gai_body_progress [OF this] show "e - data s' < e - data s"
    by (auto simp: sizeof_size_t_def)
next
  show "\<exists>r. gai_loop base e s = Some r"
    by (rule gai_loop_total)
qed

theorem C10_decode_loop_terminates_witness:
  "decode_blob (write_node sample_second) 0 80 = Inr (8, 48, 56)
   \<and> 0 + sizeof_size_t \<le> (56 :: nat) \<and> (56 :: nat) \<le> 80
   \<and> gai_body 4096 80 \<lparr>mem = write_node sample_second, data = 0, ai_list = 0, nxt = None\<rparr>
       = Inr \<lparr>mem = store_ptr (write_node sample_second) 32 4160, data = 80,
               ai_list = 4104, nxt = Some 48\<rparr>
   \<and> (80 :: nat) - 80 < 80 - 0
   \<and> (\<exists>r. gai_loop 4096 80
              \<lparr>mem = write_node sample_second, data = 0, ai_list = 0, nxt = None\<rparr> = Some r)"
proof -
  let ?s = "\<lparr>mem = write_node sample_second, data = 0, ai_list = 0, nxt = None\<rparr>"
  have b: "decode_blob (write_node sample_second) 0 80 = Inr (8, 48, 56)"
    by (simp add: decode_defs sample_defs layout_defs)
  have g: "gai_body 4096 80 ?s
             = Inr \<lparr>mem = store_ptr (write_node sample_second) 32 4160, data = 80,
                     ai_list = 4104, nxt = Some 48\<rparr>"
    by (simp add: decode_defs sample_defs layout_defs)
  from C10_decode_loop_terminates [of "write_node sample_second" 0 80 4096 ?s] b g
  show ?thesis by (simp add: sizeof_size_t_def)
qed

section \<open>The claims about address records\<close>

text \<open>
  C2 does not hold of the code for UNIX-domain addresses.  \<^verbatim>\<open>describe_addr\<close> takes
  \<^verbatim>\<open>offsetof(struct addr, addr_un.sun_path)\<close> from \<^verbatim>\<open>a->size\<close>, but every constructor
  sets \<^verbatim>\<open>size\<close> to the length of the socket address alone, so the length of the path
  comes out short by the offset of the socket address in \<^verbatim>\<open>struct addr\<close>.  With the
  offset 4: the record for \<^verbatim>\<open>/tmp/sock\<close> is rendered with the path \<^verbatim>\<open>/tmp/\<close>, the record
  for the abstract name \<^verbatim>\<open>socket\<close> with the name \<^verbatim>\<open>soc\<close>.
\<close>

theorem C2_describe_drops_the_end_of_the_path:
  "make_addr_unix_filesystem linux_lp64 ''/tmp/sock''
     = ([16], Inr \<lparr>size = 11, sa_family = AF_UNIX, sa_data = ''/tmp/sock'' @ [NUL]\<rparr>)
   \<and> describe_addr linux_lp64 ntop
         \<lparr>size = 11, sa_family = AF_UNIX, sa_data = ''/tmp/sock'' @ [NUL]\<rparr>
       = Inr ''[unixfilesystem:[/tmp/]]''
   \<and> make_addr_unix_abstract_s linux_lp64 ''socket''
       = ([13], Inr \<lparr>size = 9, sa_family = AF_UNIX, sa_data = NUL # ''socket''\<rparr>)
   \<and> describe_addr linux_lp64 ntop
         \<lparr>size = 9, sa_family = AF_UNIX, sa_data = NUL # ''socket''\<rparr>
       = Inr ''[unixabstract:[soc]]''"
  by (simp add: addr_defs)


section \<open>The claims about the socket layer\<close>

text \<open>
  C5, as the specification states it, fails for \<^verbatim>\<open>xsocketpairnc\<close>.  On a platform
  without \<^verbatim>\<open>SOCK_CLOEXEC\<close>, when \<^verbatim>\<open>socketpair\<close> gives the descriptors 3 and 4 and the
  close-on-exec setup of the second fails, the failure propagates while descriptor 3
  (and 4) is still open.
\<close>

theorem C5_socketpairnc_counterexample:
  "xsocketpairnc other_ilp32 (0, 0) (3, 4) None (Some 9) \<lparr>fds = [], cleanups = []\<rparr>
     = (Inl (Die_errno 9 ''fcntl''), \<lparr>fds = [(4, False), (3, True)], cleanups = []\<rparr>)
   \<and> is_open 3 \<lparr>fds = [(4, False), (3, True)], cleanups = []\<rparr>"
  by (simp add: xsocketpairnc_unfolded SOCK_CLOEXEC_defined_def other_ilp32_def io_defs Let_def)

text \<open>
  C5, amended.  \<^verbatim>\<open>xsocketpair\<close> commits both descriptors to cleanup slots before any
  other step: whenever it fails after \<^verbatim>\<open>socketpair\<close> succeeded, both descriptors are
  closed when the failure propagates.  \<^verbatim>\<open>xsocketpairnc\<close> uses no cleanup slot: when it
  fails after \<^verbatim>\<open>socketpair\<close> succeeded, both descriptors are still open (they are the
  caller's to close), unless a slot of the caller names them.
\<close>

theorem C5_socketpair_closes_both_on_failure:
  "(0 \<le> fst r \<and> xsocketpair P r fd m0 m1 p = (Inl e, p')
      \<longrightarrow> \<not> is_open (fst fd) p' \<and> \<not> is_open (snd fd) p')
   \<and> (0 \<le> fst r \<and> Some (fst sv) \<notin> set (cleanups p) \<and> Some (snd sv) \<notin> set (cleanups p)
        \<and> xsocketpairnc P r sv m0 m1 p = (Inl e, p')
      \<longrightarrow> is_open (fst sv) p' \<and> is_open (snd sv) p' \<and> cleanups p' = [])"
proof (intro conjI impI)
  assume a: "0 \<le> fst r \<and> xsocketpair P r fd m0 m1 p = (Inl e, p')"
  then show "\<not> is_open (fst fd) p'" and "\<not> is_open (snd fd) p'"
    by (auto simp: xsocketpair_unfolded io_defs Let_def split: if_splits option.splits)
next
  assume a: "0 \<le> fst r \<and> Some (fst sv) \<notin> set (cleanups p) \<and> Some (snd sv) \<notin> set (cleanups p)
        \<and> xsocketpairnc P r sv m0 m1 p = (Inl e, p')"
  then show "is_open (fst sv) p'" and "is_open (snd sv) p'" and "cleanups p' = []"
    by (auto simp: xsocketpairnc_unfolded io_defs Let_def image_iff split: if_splits option.splits)
qed

theorem C5_socketpair_closes_both_on_failure_witness:
  "xsocketpair other_ilp32 (0, 0) (3, 4) None (Some 9) \<lparr>fds = [], cleanups = []\<rparr>
     = (Inl (Die_errno 9 ''fcntl''), \<lparr>fds = [], cleanups = []\<rparr>)
   \<and> \<not> is_open 3 \<lparr>fds = [], cleanups = []\<rparr> \<and> \<not> is_open 4 \<lparr>fds = [], cleanups = []\<rparr>
   \<and> xsocketpairnc other_ilp32 (0, 0) (3, 4) None (Some 9) \<lparr>fds = [], cleanups = []\<rparr>
     = (Inl (Die_errno 9 ''fcntl''), \<lparr>fds = [(4, False), (3, True)], cleanups = []\<rparr>)
   \<and> is_open 3 \<lparr>fds = [(4, False), (3, True)], cleanups = []\<rparr>
   \<and> is_open 4 \<lparr>fds = [(4, False), (3, True)], cleanups = []\<rparr>"
proof -
  let ?p = "\<lparr>fds = [], cleanups = []\<rparr>"
  have 1: "xsocketpair other_ilp32 (0, 0) (3, 4) None (Some 9) ?p
             = (Inl (Die_errno 9 ''fcntl''), \<lparr>fds = [], cleanups = []\<rparr>)"
    by (simp add: xsocketpair_unfolded SOCK_CLOEXEC_defined_def other_ilp32_def io_defs Let_def)
  have 2: "xsocketpairnc other_ilp32 (0, 0) (3, 4) None (Some 9) ?p
             = (Inl (Die_errno 9 ''fcntl''), \<lparr>fds = [(4, False), (3, True)], cleanups = []\<rparr>)"
    by (simp add: xsocketpairnc_unfolded SOCK_CLOEXEC_defined_def other_ilp32_def io_defs Let_def)
  note a = C5_socketpair_closes_both_on_failure
    [where r = "(0, 0)" and P = other_ilp32 and fd = "(3, 4)" and ?m0.0 = None and ?m1.0 = "Some 9"
       and p = ?p and e = "Die_errno 9 ''fcntl''" and p' = "\<lparr>fds = [], cleanups = []\<rparr>"]
  note b = C5_socketpair_closes_both_on_failure
    [where r = "(0, 0)" and P = other_ilp32 and sv = "(3, 4)" and ?m0.0 = None and ?m1.0 = "Some 9"
       and p = ?p and e = "Die_errno 9 ''fcntl''"
       and p' = "\<lparr>fds = [(4, False), (3, True)], cleanups = []\<rparr>"]
  from a b 1 2
  show ?thesis by simp
qed




section \<open>The claims about the ring buffer\<close>

text \<open>
  C8.  Take a ring buffer whose size is at most its capacity, and any finite sequence of
  writes (\<^verbatim>\<open>ringbuf_copy_in\<close>), reads (\<^verbatim>\<open>ringbuf_copy_out\<close> followed by
  \<^verbatim>\<open>ringbuf_note_removed\<close>) and bookkeeping calls whose running total of bytes held never
  exceeds the capacity and never goes below zero.  Then
  \<open>ringbuf_size rb + ringbuf_room rb = ringbuf_capacity rb\<close> holds before the first
  operation; every operation of the sequence succeeds; and after each of them the
  capacity is unchanged, the equation holds again and the size is at most the capacity.
\<close>

theorem C8_size_plus_room_is_capacity:
  assumes "ringbuf_size rb \<le> ringbuf_capacity rb"
    and "within_capacity (ringbuf_capacity rb) (ringbuf_size rb) ops"
  shows "ringbuf_size rb + ringbuf_room rb = ringbuf_capacity rb
       \<and> length (rb_trace rb ops) = length ops
       \<and> (\<forall>x\<in>set (rb_trace rb ops). rb_balanced (ringbuf_capacity rb) x)"
  using assms rb_trace_balanced [of rb ops]
  by (simp add: ringbuf_size_def ringbuf_capacity_def ringbuf_room_def)

theorem C8_size_plus_room_is_capacity_witness:
  "ringbuf_size (ringbuf_new 4) \<le> ringbuf_capacity (ringbuf_new 4)
   \<and> within_capacity (ringbuf_capacity (ringbuf_new 4)) (ringbuf_size (ringbuf_new 4))
         [Write [1, 2, 3], Read 2, Write [4, 5, 6], Note_removed 4]
   \<and> map (map_sum id ringbuf_size)
         (rb_trace (ringbuf_new 4) [Write [1, 2, 3], Read 2, Write [4, 5, 6], Note_removed 4])
       = [Inr 3, Inr 1, Inr 4, Inr 0]
   \<and> list_all (rb_balanced 4)
         (rb_trace (ringbuf_new 4) [Write [1, 2, 3], Read 2, Write [4, 5, 6], Note_removed 4])"
proof -
  let ?ops = "[Write [1, 2, 3], Read 2, Write [4, 5, 6], Note_removed 4]"
  have h: "ringbuf_size (ringbuf_new 4) \<le> ringbuf_capacity (ringbuf_new 4)"
    "within_capacity (ringbuf_capacity (ringbuf_new 4)) (ringbuf_size (ringbuf_new 4)) ?ops"
    by (simp_all add: ringbuf_new_def ringbuf_capacity_def ringbuf_size_def)
  have t: "map (map_sum id ringbuf_size) (rb_trace (ringbuf_new 4) ?ops)
             = [Inr 3, Inr 1, Inr 4, Inr 0]"
    by (simp add: ringbuf_defs)
  from C8_size_plus_room_is_capacity [OF h]
  have "list_all (rb_balanced 4) (rb_trace (ringbuf_new 4) ?ops)"
    by (simp add: list_all_iff ringbuf_new_def ringbuf_capacity_def)
  with h t show ?thesis by simp
qed

text \<open>
  C9.  Take an empty ring buffer whose storage has the length of its capacity (its read
  cursor anywhere in the storage) and a payload of \<open>n\<close> bytes, \<open>n\<close> at most the capacity.
  Copying the \<open>n\<close> bytes in with \<^verbatim>\<open>ringbuf_copy_in\<close> succeeds; copying \<open>n\<close> bytes out of
  the resulting buffer with \<^verbatim>\<open>ringbuf_copy_out\<close> gives the payload, the same bytes in the
  same order, also when the payload wraps around the end of the storage; and once the
  \<open>n\<close> bytes are noted removed the size of the buffer is 0.
\<close>

theorem C9_copy_in_then_copy_out:
  assumes "length (rb_storage rb) = rb_capacity rb" and "rb_held rb = 0"
    and "rb_rpos rb < rb_capacity rb \<or> rb_rpos rb = 0"
    and "length bs \<le> rb_capacity rb"
  shows "\<exists>rb1. ringbuf_copy_in rb bs (length bs) = Inr rb1
           \<and> ringbuf_copy_out rb1 (length bs) = Inr bs
           \<and> ringbuf_size (ringbuf_note_removed rb1 (length bs)) = 0"
proof -
  define cap where "cap = rb_capacity rb"
  define w where "w = rb_rpos rb mod cap"
  define first where "first = min (length bs) (cap - w)"
  define st2 where "st2 = poke (poke (rb_storage rb) w (take first bs)) 0 (drop first bs)"
  define rb1 where "rb1 = rb\<lparr>rb_storage := st2, rb_held := length bs\<rparr>"
  have wr: "w = rb_rpos rb"
    using assms(3) by (auto simp: w_def cap_def)
  have wc: "w \<le> cap"
    using assms(3) by (auto simp: wr cap_def)
  have "take (length bs - first) (drop first bs) = drop first bs"
    by simp
  then have ci: "ringbuf_copy_in rb bs (length bs) = Inr rb1"
    using assms(2,4)
    by (simp add: ringbuf_copy_in_def ringbuf_room_def ringbuf_size_def ringbuf_capacity_def
        ringbuf_writable_iov_def ringbuf_note_added_def Let_def rb1_def st2_def first_def w_def
        cap_def)
  note rt = wrap_round_trip [OF assms(1) [folded cap_def] wc assms(4) [folded cap_def] first_def st2_def]
  have "iov_read st2 (ringbuf_readable_iov rb1 (length bs))
          = slice st2 w first @ slice st2 0 (length bs - first)"
    by (simp add: ringbuf_readable_iov_def ringbuf_size_def rb1_def Let_def first_def cap_def wr)
  then have "iov_read st2 (ringbuf_readable_iov rb1 (length bs)) = bs"
    by (simp add: rt(1))
  then have co: "ringbuf_copy_out rb1 (length bs) = Inr bs"
    by (simp add: ringbuf_copy_out_def ringbuf_size_def rb1_def)
  have "ringbuf_size (ringbuf_note_removed rb1 (length bs)) = 0"
    by (simp add: ringbuf_size_def ringbuf_note_removed_def rb1_def)
  with ci co show ?thesis by blast
qed

theorem C9_copy_in_then_copy_out_witness:
  "ringbuf_copy_in \<lparr>rb_capacity = 4, rb_storage = [9, 9, 9, 9], rb_rpos = 3, rb_held = 0\<rparr> [1, 2, 3] 3
     = Inr \<lparr>rb_capacity = 4, rb_storage = [2, 3, 9, 1], rb_rpos = 3, rb_held = 3\<rparr>
   \<and> ringbuf_copy_out \<lparr>rb_capacity = 4, rb_storage = [2, 3, 9, 1], rb_rpos = 3, rb_held = 3\<rparr> 3
     = Inr [1, 2, 3]
   \<and> ringbuf_size
         (ringbuf_note_removed \<lparr>rb_capacity = 4, rb_storage = [2, 3, 9, 1], rb_rpos = 3, rb_held = 3\<rparr> 3)
     = 0"
proof -
  let ?rb = "\<lparr>rb_capacity = 4, rb_storage = [9, 9, 9, 9], rb_rpos = 3, rb_held = 0\<rparr>"
  have ci: "ringbuf_copy_in ?rb [1, 2, 3] 3
             = Inr \<lparr>rb_capacity = 4, rb_storage = [2, 3, 9, 1], rb_rpos = 3, rb_held = 3\<rparr>"
    by (simp add: ringbuf_defs)
  from C9_copy_in_then_copy_out [of ?rb "[1, 2, 3]"]
  have "\<exists>rb1. ringbuf_copy_in ?rb [1, 2, 3] 3 = Inr rb1
          \<and> ringbuf_copy_out rb1 3 = Inr [1, 2, 3]
          \<and> ringbuf_size (ringbuf_note_removed rb1 3) = 0"
    by (simp add: numeral_3_eq_3)
  with ci show ?thesis by simp
qed

end
